theory Spec2Isabelle
  imports Main "HOL-Library.Word" "HOL-Library.Multiset"
begin

unbundle bit_operations_syntax

section \<open>Numbers, squares and bitboards of the JavaScript engine (index.mjs)\<close>

text \<open>
  The engine keeps every piece set in a BigInt. A BigInt is an unbounded two's complement
  integer, which is what \<^typ>\<open>int\<close> with its bit operations is. Square indices and counters
  are JavaScript numbers that only ever hold integers; they are \<^typ>\<open>int\<close> as well.
\<close>

type_synonym bitboard = int

datatype color = WHITE | BLACK

text \<open>\<^verbatim>\<open>side ^ 1\<close>\<close>

fun other :: "color \<Rightarrow> color" where
  "other WHITE = BLACK"
| "other BLACK = WHITE"

text \<open>Errors a JavaScript expression of the engine can throw.\<close>

datatype js_error = TypeError | RangeError

text \<open>
  \<^verbatim>\<open>x << BigInt(k)\<close> on BigInts: a negative count shifts to the right.
\<close>

definition shl :: "int \<Rightarrow> int \<Rightarrow> int" where
  "shl x k = (if 0 \<le> k then push_bit (nat k) x else drop_bit (nat (- k)) x)"

text \<open>\<^verbatim>\<open>const bit = (sq) => 1n << BigInt(sq)\<close>\<close>

definition bit_sq :: "int \<Rightarrow> bitboard" where
  "bit_sq sq = shl 1 sq"

text \<open>
  \<^verbatim>\<open>a % b\<close> takes the sign of the dividend and \<^verbatim>\<open>(a / b) | 0\<close> truncates towards zero;
  \<^verbatim>\<open>Math.floor(a / b)\<close> is \<^term>\<open>a div b\<close>.
\<close>

definition js_rem :: "int \<Rightarrow> int \<Rightarrow> int" where
  "js_rem a b = sgn a * (\<bar>a\<bar> mod \<bar>b\<bar>)"

definition js_quot :: "int \<Rightarrow> int \<Rightarrow> int" where
  "js_quot a b = sgn a * sgn b * (\<bar>a\<bar> div \<bar>b\<bar>)"

text \<open>The loop header \<^verbatim>\<open>for (let sq = 0; sq < 64; sq++)\<close> visits these indices in order.\<close>

definition squares :: "int list" where
  "squares = [0..63]"

definition inBoard :: "int \<Rightarrow> int \<Rightarrow> bool" where
  "inBoard f r \<longleftrightarrow> f \<ge> 0 \<and> f < 8 \<and> r \<ge> 0 \<and> r < 8"

section \<open>Attack tables\<close>

definition kD :: "(int \<times> int) list" where
  "kD = [(1, 2), (2, 1), (2, -1), (1, -2), (-1, -2), (-2, -1), (-2, 1), (-1, 2)]"

definition gD :: "(int \<times> int) list" where
  "gD = [(1, 0), (1, 1), (0, 1), (-1, 1), (-1, 0), (-1, -1), (0, -1), (1, -1)]"

text \<open>
  The body of \<^verbatim>\<open>initAttackTables\<close> for one square and one list of offsets:
  \<^verbatim>\<open>for (const [df, dr] of kD) { const nf = f + df, nr = r + dr;
    if (inBoard(nf, nr)) bb |= bit(nr * 8 + nf); }\<close>
\<close>

definition offsetAttacks :: "(int \<times> int) list \<Rightarrow> int \<Rightarrow> bitboard" where
  "offsetAttacks ds sq =
     (let f = js_rem sq 8; r = sq div 8
      in fold (\<lambda>(df, dr) bb.
           let nf = f + df; nr = r + dr
           in if inBoard nf nr then bb OR bit_sq (nr * 8 + nf) else bb) ds 0)"

text \<open>
  The tables are arrays of 64 entries. Reading one outside its indices yields
  \<^verbatim>\<open>undefined\<close>, here \<^term>\<open>None\<close>.
\<close>

definition knightAttacks :: "int \<Rightarrow> bitboard option" where
  "knightAttacks sq = (if 0 \<le> sq \<and> sq < 64 then Some (offsetAttacks kD sq) else None)"

definition kingAttacks :: "int \<Rightarrow> bitboard option" where
  "kingAttacks sq = (if 0 \<le> sq \<and> sq < 64 then Some (offsetAttacks gD sq) else None)"

section \<open>Sliding attacks\<close>

text \<open>
  One ray of \<^verbatim>\<open>getRookAttacks\<close> or \<^verbatim>\<open>getBishopAttacks\<close>: the squares are visited in
  the order of the loop; each is added, and the loop breaks on the first occupied one:
  \<^verbatim>\<open>bb |= bit(s); if (occ & bit(s)) break;\<close>
\<close>

fun ray :: "bitboard \<Rightarrow> int list \<Rightarrow> bitboard \<Rightarrow> bitboard" where
  "ray occ [] bb = bb"
| "ray occ (s # ss) bb =
     (let bb' = bb OR bit_sq s
      in if occ AND bit_sq s \<noteq> 0 then bb' else ray occ ss bb')"

definition getRookAttacks :: "int \<Rightarrow> bitboard \<Rightarrow> bitboard" where
  "getRookAttacks sq occ =
     (let f = js_rem sq 8; r = js_quot sq 8;
          bb1 = ray occ (map (\<lambda>nf. r * 8 + nf) [f + 1..7]) 0;
          bb2 = ray occ (map (\<lambda>nf. r * 8 + nf) (rev [0..f - 1])) bb1;
          bb3 = ray occ (map (\<lambda>nr. nr * 8 + f) [r + 1..7]) bb2;
          bb4 = ray occ (map (\<lambda>nr. nr * 8 + f) (rev [0..r - 1])) bb3
      in bb4)"

text \<open>
  The diagonal loops run \<^verbatim>\<open>d\<close> from 1 to 7 and break as soon as the square leaves the
  board, which is \<^term>\<open>takeWhile\<close> on the loop guard.
\<close>

definition getBishopAttacks :: "int \<Rightarrow> bitboard \<Rightarrow> bitboard" where
  "getBishopAttacks sq occ =
     (let f = js_rem sq 8; r = js_quot sq 8;
          bb1 = ray occ (map (\<lambda>d. (r + d) * 8 + (f + d))
                  (takeWhile (\<lambda>d. \<not> (f + d \<ge> 8 \<or> r + d \<ge> 8)) [1..7])) 0;
          bb2 = ray occ (map (\<lambda>d. (r + d) * 8 + (f - d))
                  (takeWhile (\<lambda>d. \<not> (f - d < 0 \<or> r + d \<ge> 8)) [1..7])) bb1;
          bb3 = ray occ (map (\<lambda>d. (r - d) * 8 + (f + d))
                  (takeWhile (\<lambda>d. \<not> (f + d \<ge> 8 \<or> r - d < 0)) [1..7])) bb2;
          bb4 = ray occ (map (\<lambda>d. (r - d) * 8 + (f - d))
                  (takeWhile (\<lambda>d. \<not> (f - d < 0 \<or> r - d < 0)) [1..7])) bb3
      in bb4)"

definition pawnCaptureSources :: "int \<Rightarrow> color \<Rightarrow> bitboard" where
  "pawnCaptureSources toSq c =
     (let f = js_rem toSq 8; r = js_quot toSq 8
      in case c of
           WHITE \<Rightarrow>
             (let bb1 = (if r \<ge> 1 \<and> f \<ge> 1 then bit_sq ((r - 1) * 8 + (f - 1)) else 0)
              in if r \<ge> 1 \<and> f < 7 then bb1 OR bit_sq ((r - 1) * 8 + (f + 1)) else bb1)
         | BLACK \<Rightarrow>
             (let bb1 = (if r < 7 \<and> f \<ge> 1 then bit_sq ((r + 1) * 8 + (f - 1)) else 0)
              in if r < 7 \<and> f < 7 then bb1 OR bit_sq ((r + 1) * 8 + (f + 1)) else bb1))"

section \<open>Disambiguation\<close>

text \<open>
  The mask of a file, written out in \<^verbatim>\<open>filterDisamb\<close> and again in \<^verbatim>\<open>resolveSAN\<close> as
  \<^verbatim>\<open>(1n << BigInt(fileIdx)) | (1n << BigInt(8 + fileIdx)) | ... | (1n << BigInt(56 + fileIdx))\<close>.
\<close>

definition fileMask :: "int \<Rightarrow> bitboard" where
  "fileMask fileIdx =
     (bit_sq fileIdx OR bit_sq (8 + fileIdx) OR bit_sq (16 + fileIdx) OR bit_sq (24 + fileIdx)
      OR bit_sq (32 + fileIdx) OR bit_sq (40 + fileIdx) OR bit_sq (48 + fileIdx)
      OR bit_sq (56 + fileIdx))"

text \<open>\<^verbatim>\<open>parseInt(c, 10)\<close> on a one-character string: the digit, or NaN (\<^term>\<open>None\<close>).\<close>

definition parseInt_char :: "char \<Rightarrow> int option" where
  "parseInt_char c =
     (if (48::nat) \<le> of_char c \<and> of_char c \<le> (57::nat) then Some (int (of_char c) - 48)
      else None)"

text \<open>
  The two masking steps of \<^verbatim>\<open>filterDisamb\<close>. \<^verbatim>\<open>BigInt(rankIdx * 8)\<close> throws a
  RangeError when \<^verbatim>\<open>parseInt\<close> gave NaN.
\<close>

definition applyDisamb :: "bitboard \<Rightarrow> char option \<Rightarrow> char option \<Rightarrow> js_error + bitboard" where
  "applyDisamb candidates dFile dRank =
     (let bb = (case dFile of
                  None \<Rightarrow> candidates
                | Some c \<Rightarrow> candidates AND fileMask (int (of_char c) - 97))
      in case dRank of
           None \<Rightarrow> Inr bb
         | Some d \<Rightarrow>
             (case parseInt_char d of
                None \<Rightarrow> Inl RangeError
              | Some n \<Rightarrow> Inr (bb AND shl 255 ((n - 1) * 8))))"

text \<open>
  \<^verbatim>\<open>let found = -1;
  for (let sq = 0; sq < 64; sq++) {
    if (bb & bit(sq)) { if (found >= 0) return -1; found = sq; } }
  return found;\<close>
\<close>

fun findSingle :: "bitboard \<Rightarrow> int list \<Rightarrow> int \<Rightarrow> int" where
  "findSingle bb [] found = found"
| "findSingle bb (sq # sqs) found =
     (if bb AND bit_sq sq \<noteq> 0
      then (if found \<ge> 0 then - 1 else findSingle bb sqs sq)
      else findSingle bb sqs found)"

definition filterDisamb :: "bitboard \<Rightarrow> char option \<Rightarrow> char option \<Rightarrow> js_error + int" where
  "filterDisamb candidates dFile dRank =
     (case applyDisamb candidates dFile dRank of
        Inl e \<Rightarrow> Inl e
      | Inr bb \<Rightarrow> Inr (findSingle bb squares (- 1)))"

section \<open>Parsing SAN\<close>

text \<open>
  Strings are lists of characters with codes 0 to 255. On them \<^verbatim>\<open>trim\<close> and the class
  \<^verbatim>\<open>\s\<close> see tab, line feed, vertical tab, form feed, carriage return, space and the
  no-break space.
\<close>

definition is_ws :: "char \<Rightarrow> bool" where
  "is_ws c \<longleftrightarrow> (of_char c :: nat) \<in> {9, 10, 11, 12, 13, 32, 160}"

definition trim :: "string \<Rightarrow> string" where
  "trim s = rev (dropWhile is_ws (rev (dropWhile is_ws s)))"

text \<open>The character classes \<^verbatim>\<open>[a-h]\<close> and \<^verbatim>\<open>[1-8]\<close>.\<close>

definition is_file :: "char \<Rightarrow> bool" where
  "is_file c \<longleftrightarrow> (97::nat) \<le> of_char c \<and> of_char c \<le> (104::nat)"

definition is_rank :: "char \<Rightarrow> bool" where
  "is_rank c \<longleftrightarrow> (49::nat) \<le> of_char c \<and> of_char c \<le> (56::nat)"

text \<open>
  \<^verbatim>\<open>squareToIndex\<close>, on the two characters of a square name. \<^verbatim>\<open>parseInt(sqStr[1], 10)\<close>
  is the value of the digit: the only caller passes the text matched by \<^verbatim>\<open>[a-h][1-8]\<close>.
\<close>

definition squareToIndex :: "string \<Rightarrow> int" where
  "squareToIndex sqStr =
     (let file = int (of_char (sqStr ! 0)) - 97;
          rank = (int (of_char (sqStr ! 1)) - 48) - 1
      in rank * 8 + file)"

text \<open>
  \<^verbatim>\<open>s.match(/([a-h][1-8])(?:=([NBRQ]))?$/)\<close>: the pattern is anchored at the end, so it
  matches the last four characters (square, \<^verbatim>\<open>=\<close>, piece letter) or else the last two.
  The result holds the two groups.
\<close>

definition match_targetPromo :: "string \<Rightarrow> (string \<times> string option) option" where
  "match_targetPromo s =
     (let n = length s; t4 = drop (n - 4) s; t2 = drop (n - 2) s
      in if 4 \<le> n \<and> is_file (t4 ! 0) \<and> is_rank (t4 ! 1) \<and> t4 ! 2 = CHR ''=''
            \<and> t4 ! 3 \<in> set ''NBRQ''
         then Some (take 2 t4, Some [t4 ! 3])
         else if 2 \<le> n \<and> is_file (t2 ! 0) \<and> is_rank (t2 ! 1)
         then Some (t2, None)
         else None)"

text \<open>\<^verbatim>\<open>toLowerCase\<close> on the letters of the engine.\<close>

definition toLowerCase :: "string \<Rightarrow> string" where
  "toLowerCase s =
     map (\<lambda>c. if (65::nat) \<le> of_char c \<and> of_char c \<le> (90::nat)
               then char_of (of_char c + (32::nat)) else c) s"

record parsed =
  piece :: "char option"
  targetIndex :: int
  disambFile :: "char option"
  disambRank :: "char option"
  san_promotion :: "string option"
  san_castle :: "string option"

text \<open>
  The text before the destination: \<^verbatim>\<open>s.slice(0, s.length - targetPromo[0].length)\<close>
  without one trailing \<^verbatim>\<open>x\<close>, then split into the piece letter, if any, and the rest.
\<close>

definition pieceAndRest :: "string \<Rightarrow> nat \<Rightarrow> char option \<times> string" where
  "pieceAndRest s matched =
     (let rest0 = take (length s - matched) s;
          rest1 = (if rest0 \<noteq> [] \<and> last rest0 = CHR ''x'' then butlast rest0 else rest0)
      in if rest1 \<noteq> [] \<and> hd rest1 \<in> set ''NBRQK''
         then (Some (hd rest1), tl rest1)
         else (None, rest1))"

text \<open>
  The block \<^verbatim>\<open>if (rest.length >= 1) { ... }\<close>: \<^verbatim>\<open>disambFile\<close> and \<^verbatim>\<open>disambRank\<close>.
\<close>

definition disambiguation :: "string \<Rightarrow> char option \<times> char option" where
  "disambiguation rest =
     (let dF1 = (if rest \<noteq> [] \<and> is_file (hd rest) then Some (hd rest) else None);
          dR1 = (if rest \<noteq> [] \<and> is_rank (last rest) then Some (last rest) else None);
          both = (length rest = 2 \<and> is_file (rest ! 0) \<and> is_rank (rest ! 1))
      in (if both then Some (rest ! 0) else dF1, if both then Some (rest ! 1) else dR1))"

definition parseSAN :: "string \<Rightarrow> parsed option" where
  "parseSAN san =
     (let s = trim san
      in if s = ''O-O'' \<or> s = ''O-O-O''
         then Some \<lparr>piece = None, targetIndex = - 1, disambFile = None, disambRank = None,
                    san_promotion = None,
                    san_castle = Some (if s = ''O-O'' then ''K'' else ''Q'')\<rparr>
         else case match_targetPromo s of
                None \<Rightarrow> None
              | Some (targetStr, promo) \<Rightarrow>
                  (let promotion = map_option toLowerCase promo;
                       idx = squareToIndex targetStr;
                       matched = (case promo of None \<Rightarrow> 2 | Some _ \<Rightarrow> 4);
                       (pc, rest) = pieceAndRest s matched;
                       (dF, dR) = disambiguation rest
                   in Some \<lparr>piece = pc, targetIndex = idx, disambFile = dF, disambRank = dR,
                             san_promotion = promotion, san_castle = None\<rparr>))"

section \<open>The position\<close>

text \<open>Each piece array holds the set of WHITE at index 0 and the set of BLACK at index 1.\<close>

type_synonym bb2 = "bitboard \<times> bitboard"

fun of_color :: "bb2 \<Rightarrow> color \<Rightarrow> bitboard" where
  "of_color (w, b) WHITE = w"
| "of_color (w, b) BLACK = b"

fun with_color :: "bb2 \<Rightarrow> color \<Rightarrow> bitboard \<Rightarrow> bb2" where
  "with_color (w, b) WHITE v = (v, b)"
| "with_color (w, b) BLACK v = (w, v)"

record position =
  pawns :: bb2
  knights :: bb2
  bishops :: bb2
  rooks :: bb2
  queens :: bb2
  kings :: bb2
  sideToMove :: color
  castling :: string
  enPassant :: int
  halfmove :: int
  fullmove :: int

text \<open>\<^verbatim>\<open>reset\<close> followed by \<^verbatim>\<open>_setInitialPosition\<close>\<close>

definition reset :: position where
  "reset =
     \<lparr>pawns = (0x000000000000FF00, 0x00FF000000000000),
      knights = (0x0000000000000042, 0x4200000000000000),
      bishops = (0x0000000000000024, 0x2400000000000000),
      rooks = (0x0000000000000081, 0x8100000000000000),
      queens = (0x0000000000000008, 0x0800000000000000),
      kings = (0x0000000000000010, 0x1000000000000000),
      sideToMove = WHITE, castling = ''KQkq'', enPassant = - 1, halfmove = 0, fullmove = 1\<rparr>"

definition occupancy :: "position \<Rightarrow> color \<Rightarrow> bitboard" where
  "occupancy p c =
     (of_color (pawns p) c OR of_color (knights p) c OR of_color (bishops p) c
      OR of_color (rooks p) c OR of_color (queens p) c OR of_color (kings p) c)"

definition allOcc :: "position \<Rightarrow> bitboard" where
  "allOcc p = (occupancy p WHITE OR occupancy p BLACK)"

section \<open>Resolving SAN\<close>

text \<open>
  A move object. The fields \<^verbatim>\<open>from\<close> and \<^verbatim>\<open>to\<close> are named \<open>from_sq\<close> and \<open>to_sq\<close>;
  an absent \<^verbatim>\<open>promotion\<close> or \<^verbatim>\<open>castle\<close> is \<^term>\<open>None\<close>, an absent \<^verbatim>\<open>enpassant\<close> is
  \<^term>\<open>False\<close>.
\<close>

record move =
  from_sq :: int
  to_sq :: int
  promotion :: "string option"
  castle :: "string option"
  enpassant :: bool

text \<open>A string used as a condition: \<^verbatim>\<open>undefined\<close> and the empty string are falsy.\<close>

definition truthy :: "string option \<Rightarrow> bool" where
  "truthy s = (case s of None \<Rightarrow> False | Some t \<Rightarrow> t \<noteq> [])"

text \<open>
  A table entry combined with a piece set: \<^verbatim>\<open>kingAttacks[toSq] & this.kings[side]\<close>
  throws a TypeError when the entry is \<^verbatim>\<open>undefined\<close>.
\<close>

definition tableAnd :: "bitboard option \<Rightarrow> bitboard \<Rightarrow> js_error + bitboard" where
  "tableAnd entry bb = (case entry of None \<Rightarrow> Inl TypeError | Some a \<Rightarrow> Inr (a AND bb))"

text \<open>The candidate origins, by the piece letter (the chain of branches of \<^verbatim>\<open>resolveSAN\<close>).\<close>

definition candidates :: "position \<Rightarrow> parsed \<Rightarrow> js_error + bitboard" where
  "candidates pos p =
     (let side = sideToMove pos; occ = allOcc pos; toSq = targetIndex p
      in if piece p = Some CHR ''K'' then tableAnd (kingAttacks toSq) (of_color (kings pos) side)
         else if piece p = Some CHR ''N''
         then tableAnd (knightAttacks toSq) (of_color (knights pos) side)
         else if piece p = Some CHR ''R''
         then Inr (getRookAttacks toSq occ AND of_color (rooks pos) side)
         else if piece p = Some CHR ''B''
         then Inr (getBishopAttacks toSq occ AND of_color (bishops pos) side)
         else if piece p = Some CHR ''Q''
         then Inr ((getRookAttacks toSq occ OR getBishopAttacks toSq occ)
                   AND of_color (queens pos) side)
         else (case disambFile p of
                 Some c \<Rightarrow>
                   Inr ((pawnCaptureSources toSq side AND of_color (pawns pos) side)
                        AND fileMask (int (of_char c) - 97))
               | None \<Rightarrow>
                   (let oneBack = (if side = WHITE then toSq - 8 else toSq + 8);
                        twoBack = (if side = WHITE then toSq - 16 else toSq + 16);
                        toRank = js_quot toSq 8
                    in if of_color (pawns pos) side AND bit_sq oneBack \<noteq> 0
                       then Inr (bit_sq oneBack)
                       else if (if side = WHITE then toRank = 3 else toRank = 4)
                               \<and> of_color (pawns pos) side AND bit_sq twoBack \<noteq> 0
                               \<and> \<not> (occ AND bit_sq oneBack \<noteq> 0)
                       then Inr (bit_sq twoBack)
                       else Inr 0)))"

text \<open>
  \<^verbatim>\<open>let count = 0;
  for (let sq = 0; sq < 64; sq++) {
    if (candidates & bit(sq)) { count++; fromSq = sq; if (count > 1) break; } }\<close>
  The result is the pair of \<^verbatim>\<open>count\<close> (here \<open>cnt\<close>) and \<^verbatim>\<open>fromSq\<close>.
\<close>

fun countLoop :: "bitboard \<Rightarrow> int list \<Rightarrow> int \<Rightarrow> int \<Rightarrow> int \<times> int" where
  "countLoop c [] cnt fromSq = (cnt, fromSq)"
| "countLoop c (sq # sqs) cnt fromSq =
     (if c AND bit_sq sq \<noteq> 0
      then (if cnt + 1 > 1 then (cnt + 1, sq) else countLoop c sqs (cnt + 1) sq)
      else countLoop c sqs cnt fromSq)"

text \<open>The origin square chosen after the candidates are known, or a negative number.\<close>

definition chooseOrigin :: "bitboard \<Rightarrow> char option \<Rightarrow> char option \<Rightarrow> js_error + int" where
  "chooseOrigin c dFile dRank =
     (case filterDisamb c dFile dRank of
        Inl e \<Rightarrow> Inl e
      | Inr fromSq \<Rightarrow>
          if fromSq < 0 \<and> c \<noteq> 0
          then (case countLoop c squares 0 fromSq of
                  (cnt, fromSq') \<Rightarrow> Inr (if cnt \<noteq> 1 then - 1 else fromSq'))
          else Inr fromSq)"

text \<open>\<^verbatim>\<open>resolveSAN\<close>: \<^term>\<open>Inr None\<close> is the returned \<^verbatim>\<open>null\<close>, \<^term>\<open>Inl e\<close> a thrown error.\<close>

definition resolveSAN :: "position \<Rightarrow> string \<Rightarrow> js_error + move option" where
  "resolveSAN pos san =
     (case parseSAN san of
        None \<Rightarrow> Inr None
      | Some p \<Rightarrow>
          (let side = sideToMove pos; occ = allOcc pos; toSq = targetIndex p
           in if truthy (san_castle p)
              then (let fromSq = (if side = WHITE then 4 else 60);
                        toSqKing = (if san_castle p = Some ''K''
                                    then (if side = WHITE then 6 else 62)
                                    else (if side = WHITE then 2 else 58))
                    in Inr (Some \<lparr>from_sq = fromSq, to_sq = toSqKing, promotion = None,
                                  castle = san_castle p, enpassant = False\<rparr>))
              else case candidates pos p of
                     Inl e \<Rightarrow> Inl e
                   | Inr c \<Rightarrow>
                       (case chooseOrigin c (disambFile p) (disambRank p) of
                          Inl e \<Rightarrow> Inl e
                        | Inr fromSq \<Rightarrow>
                            if fromSq < 0 then Inr None
                            else Inr (Some
                              \<lparr>from_sq = fromSq, to_sq = toSq,
                               promotion = (if truthy (san_promotion p) then san_promotion p
                                            else None),
                               castle = None,
                               enpassant = (piece p = None \<and> disambFile p \<noteq> None
                                            \<and> \<not> (occ AND bit_sq toSq \<noteq> 0))\<rparr>))))"

section \<open>Making a move\<close>

text \<open>\<^verbatim>\<open>castling.replace(side === WHITE ? /K|Q/g : /k|q/g, "")\<close>\<close>

definition removeSideRights :: "color \<Rightarrow> string \<Rightarrow> string" where
  "removeSideRights side cs =
     (case side of
        WHITE \<Rightarrow> filter (\<lambda>c. c \<noteq> CHR ''K'' \<and> c \<noteq> CHR ''Q'') cs
      | BLACK \<Rightarrow> filter (\<lambda>c. c \<noteq> CHR ''k'' \<and> c \<noteq> CHR ''q'') cs)"

text \<open>\<^verbatim>\<open>_finishMove\<close>\<close>

definition finishMove :: "position \<Rightarrow> position" where
  "finishMove p =
     (let p1 = p\<lparr>sideToMove := other (sideToMove p)\<rparr>
      in if sideToMove p1 = WHITE then p1\<lparr>fullmove := fullmove p1 + 1\<rparr> else p1)"

text \<open>
  The closure \<^verbatim>\<open>movePiece\<close> on one piece array: whether it moved something, and the
  array afterwards.
\<close>

definition movePiece :: "color \<Rightarrow> bitboard \<Rightarrow> bitboard \<Rightarrow> bb2 \<Rightarrow> bool \<times> bb2" where
  "movePiece side fromBB toBB arr =
     (if of_color arr side AND fromBB \<noteq> 0
      then (True, with_color arr side ((of_color arr side XOR fromBB) OR toBB))
      else (False, arr))"

text \<open>\<^verbatim>\<open>arr[enemy] &= ~toBB\<close>\<close>

definition removeAt :: "color \<Rightarrow> bitboard \<Rightarrow> bb2 \<Rightarrow> bb2" where
  "removeAt enemy toBB arr = with_color arr enemy (of_color arr enemy AND NOT toBB)"

text \<open>Step 1 of \<^verbatim>\<open>makeMove\<close>, the castle branch up to its \<^verbatim>\<open>return\<close>.\<close>

definition castleMove :: "position \<Rightarrow> move \<Rightarrow> position" where
  "castleMove p m =
     (let side = sideToMove p;
          fromBB = bit_sq (from_sq m); toBB = bit_sq (to_sq m);
          p1 = p\<lparr>kings := with_color (kings p) side
                    (of_color (kings p) side XOR (fromBB OR toBB))\<rparr>;
          toggle = (if castle m = Some ''K''
                    then (if side = WHITE then bit_sq 7 OR bit_sq 5 else bit_sq 63 OR bit_sq 61)
                    else (if side = WHITE then bit_sq 0 OR bit_sq 3 else bit_sq 56 OR bit_sq 59));
          p2 = p1\<lparr>rooks := with_color (rooks p1) side (of_color (rooks p1) side XOR toggle)\<rparr>;
          p3 = p2\<lparr>castling := removeSideRights side (castling p2)\<rparr>
      in finishMove p3)"

text \<open>Steps 2 and 3: the en-passant capture and the removal at the destination.\<close>

definition removeCaptured :: "position \<Rightarrow> move \<Rightarrow> position" where
  "removeCaptured p m =
     (let side = sideToMove p; enemy = other side; toBB = bit_sq (to_sq m);
          p1 = (if enpassant m
                then (let capSq = (if side = WHITE then to_sq m - 8 else to_sq m + 8);
                          capBB = bit_sq capSq
                      in p\<lparr>pawns := with_color (pawns p) enemy
                                (of_color (pawns p) enemy AND NOT capBB)\<rparr>)
                else p)
      in p1\<lparr>pawns := removeAt enemy toBB (pawns p1),
             knights := removeAt enemy toBB (knights p1),
             bishops := removeAt enemy toBB (bishops p1),
             rooks := removeAt enemy toBB (rooks p1),
             queens := removeAt enemy toBB (queens p1),
             kings := removeAt enemy toBB (kings p1)\<rparr>)"

text \<open>
  Step 4: the chain \<^verbatim>\<open>if (movePiece(this.pawns)) movedPawn = true;
  else if (movePiece(this.knights)); ... else movePiece(this.kings);\<close>
  The result is \<^verbatim>\<open>movedPawn\<close> and the position.
\<close>

definition relocate :: "position \<Rightarrow> bitboard \<Rightarrow> bitboard \<Rightarrow> bool \<times> position" where
  "relocate p fromBB toBB =
     (let side = sideToMove p; mv = movePiece side fromBB toBB
      in if fst (mv (pawns p)) then (True, p\<lparr>pawns := snd (mv (pawns p))\<rparr>)
         else if fst (mv (knights p)) then (False, p\<lparr>knights := snd (mv (knights p))\<rparr>)
         else if fst (mv (bishops p)) then (False, p\<lparr>bishops := snd (mv (bishops p))\<rparr>)
         else if fst (mv (rooks p)) then (False, p\<lparr>rooks := snd (mv (rooks p))\<rparr>)
         else if fst (mv (queens p)) then (False, p\<lparr>queens := snd (mv (queens p))\<rparr>)
         else (False, p\<lparr>kings := snd (mv (kings p))\<rparr>))"

text \<open>Step 5\<close>

definition promote :: "position \<Rightarrow> move \<Rightarrow> position" where
  "promote p m =
     (if truthy (promotion m)
      then (let side = sideToMove p; toBB = bit_sq (to_sq m);
                p1 = p\<lparr>pawns := with_color (pawns p) side (of_color (pawns p) side AND NOT toBB)\<rparr>
            in if promotion m = Some ''q''
               then p1\<lparr>queens := with_color (queens p1) side (of_color (queens p1) side OR toBB)\<rparr>
               else if promotion m = Some ''r''
               then p1\<lparr>rooks := with_color (rooks p1) side (of_color (rooks p1) side OR toBB)\<rparr>
               else if promotion m = Some ''b''
               then p1\<lparr>bishops := with_color (bishops p1) side
                                     (of_color (bishops p1) side OR toBB)\<rparr>
               else p1\<lparr>knights := with_color (knights p1) side
                                     (of_color (knights p1) side OR toBB)\<rparr>)
      else p)"

text \<open>
  Step 6. \<^verbatim>\<open>(move.from + move.to) >> 1\<close> halves the sum, rounding down (the sum of two
  squares is far below \<open>2^31\<close>).
\<close>

definition updateEnPassant :: "position \<Rightarrow> move \<Rightarrow> bool \<Rightarrow> position" where
  "updateEnPassant p m movedPawn =
     (if movedPawn \<and> \<bar>to_sq m - from_sq m\<bar> = 16
      then p\<lparr>enPassant := (from_sq m + to_sq m) div 2\<rparr>
      else p\<lparr>enPassant := - 1\<rparr>)"

text \<open>
  Step 7. \<^verbatim>\<open>castling.replace("Q", "")\<close> with a string pattern removes the first occurrence.
\<close>

definition updateCastling :: "position \<Rightarrow> move \<Rightarrow> bool \<Rightarrow> position" where
  "updateCastling p m movedRook =
     (let side = sideToMove p; fromBB = bit_sq (from_sq m);
          c0 = castling p;
          c1 = (if fromBB AND of_color (kings p) side \<noteq> 0 then removeSideRights side c0 else c0);
          c2 = (if movedRook \<and> from_sq m = 0 then remove1 (CHR ''Q'') c1 else c1);
          c3 = (if movedRook \<and> from_sq m = 7 then remove1 (CHR ''K'') c2 else c2);
          c4 = (if movedRook \<and> from_sq m = 56 then remove1 (CHR ''q'') c3 else c3);
          c5 = (if movedRook \<and> from_sq m = 63 then remove1 (CHR ''k'') c4 else c4)
      in p\<lparr>castling := c5\<rparr>)"

definition makeMove :: "position \<Rightarrow> move \<Rightarrow> position" where
  "makeMove p m =
     (let side = sideToMove p; fromBB = bit_sq (from_sq m); toBB = bit_sq (to_sq m)
      in if truthy (castle m) then castleMove p m
         else (let p1 = removeCaptured p m;
                   movedRook = (of_color (rooks p1) side AND fromBB \<noteq> 0);
                   (movedPawn, p2) = relocate p1 fromBB toBB;
                   p3 = promote p2 m;
                   p4 = updateEnPassant p3 m movedPawn;
                   p5 = updateCastling p4 m movedRook
               in finishMove p5))"

text \<open>\<^verbatim>\<open>makeMoveSAN\<close> on a string: the returned boolean and the position afterwards.\<close>

definition makeMoveSAN :: "position \<Rightarrow> string \<Rightarrow> js_error + bool \<times> position" where
  "makeMoveSAN p san =
     (case resolveSAN p san of
        Inl e \<Rightarrow> Inl e
      | Inr None \<Rightarrow> Inr (False, p)
      | Inr (Some m) \<Rightarrow> Inr (True, makeMove p m))"

text \<open>A sequence of move objects applied in order.\<close>

definition play :: "position \<Rightarrow> move list \<Rightarrow> position" where
  "play p ms = foldl makeMove p ms"

text \<open>The move object \<^verbatim>\<open>{ from: a, to: b }\<close>.\<close>

definition plainMove :: "int \<Rightarrow> int \<Rightarrow> move" where
  "plainMove a b = \<lparr>from_sq = a, to_sq = b, promotion = None, castle = None, enpassant = False\<rparr>"

text \<open>The squares among 0 to 63 whose bit is set in a bitboard, in ascending order.\<close>

definition squaresOf :: "bitboard \<Rightarrow> int list" where
  "squaresOf bb = filter (\<lambda>sq. bb AND bit_sq sq \<noteq> 0) squares"

section \<open>Example positions\<close>

text \<open>After 1. e4 e5.\<close>

definition after_e4_e5 :: position where
  "after_e4_e5 = play reset [plainMove 12 28, plainMove 52 36]"

text \<open>After 1. Nf3 Nf6 2. g3 g6 3. Bg2 d5: Black has just advanced a pawn two squares.\<close>

definition before_white_castles :: position where
  "before_white_castles =
     play reset [plainMove 6 21, plainMove 62 45, plainMove 14 22, plainMove 54 46,
       plainMove 5 14, plainMove 51 35]"

text \<open>After 1. e4 c5 2. Nf3 d6, where the repository's tests play \<^verbatim>\<open>Bb5+\<close>.\<close>

definition sicilian :: position where
  "sicilian = play reset [plainMove 12 28, plainMove 50 34, plainMove 6 21, plainMove 51 43]"

text \<open>After 1. Nf3 e5: the white knights on b1 and f3 both reach d2.\<close>

definition two_knights :: position where
  "two_knights = play reset [plainMove 6 21, plainMove 52 36]"

text \<open>
  After 1. e4 e5 2. d4 exd4 3. c3 dxc3 4. Bc4 cxb2 5. Nc3: the black pawn on b2 is about
  to promote on b1.
\<close>

definition before_promotion :: position where
  "before_promotion =
     play reset [plainMove 12 28, plainMove 52 36, plainMove 11 27, plainMove 36 27,
       plainMove 10 18, plainMove 27 18, plainMove 5 26, plainMove 18 9, plainMove 1 18]"

text \<open>1. Nf3 Nf6 2. g3 g6 3. Bg2 d5 4. O-O as move objects.\<close>

definition castled_game :: "move list" where
  "castled_game =
     [plainMove 6 21, plainMove 62 45, plainMove 14 22, plainMove 54 46, plainMove 5 14,
      plainMove 51 35,
      \<lparr>from_sq = 4, to_sq = 6, promotion = None, castle = Some ''K'', enpassant = False\<rparr>]"

section \<open>Zobrist tables\<close>

text \<open>
  \<^verbatim>\<open>mulberry32\<close>: one call of the returned closure, as the new value of \<^verbatim>\<open>seed\<close> and
  the result. The closure keeps \<^verbatim>\<open>seed\<close> as a number that grows by \<open>0x6d2b79f5\<close> per call
  (exactly, for the 1562 calls made); \<^verbatim>\<open>^\<close>, \<^verbatim>\<open>|\<close>, \<^verbatim>\<open>>>>\<close> and \<^verbatim>\<open>Math.imul\<close> read it
  modulo \<open>2^32\<close>, so a 32-bit word carries the same information.
\<close>

definition mulberry32 :: "32 word \<Rightarrow> 32 word \<times> 32 word" where
  "mulberry32 seed =
     (let s = seed + 0x6d2b79f5;
          t1 = (s XOR drop_bit 15 s) * (s OR 1);
          t2 = t1 XOR drop_bit 7 t1
      in (s, t2 XOR drop_bit 12 t2))"

text \<open>\<^verbatim>\<open>random64\<close>: \<^verbatim>\<open>(BigInt(hi) << 32n) | BigInt(lo)\<close>\<close>

definition random64 :: "32 word \<Rightarrow> 32 word \<times> int" where
  "random64 seed =
     (let (s1, lo) = mulberry32 seed; (s2, hi) = mulberry32 s1
      in (s2, push_bit 32 (uint hi) OR uint lo))"

text \<open>The first \<open>n\<close> values drawn by successive calls of \<^verbatim>\<open>random64(prng)\<close>.\<close>

fun randoms :: "nat \<Rightarrow> 32 word \<Rightarrow> int list" where
  "randoms 0 seed = []"
| "randoms (Suc n) seed = (let (s, v) = random64 seed in v # randoms n s)"

text \<open>
  \<^verbatim>\<open>initZobrist\<close> draws, from the seed \<open>0x5eed\<close>, the 64 times 12 piece values (square by
  square), the side value, the four castling values and the eight en-passant values.
\<close>

definition zobristValues :: "int list" where
  "zobristValues = randoms 781 0x5eed"

definition ZOBRIST_PIECES :: "int \<Rightarrow> int \<Rightarrow> int" where
  "ZOBRIST_PIECES sq pt = zobristValues ! nat (sq * 12 + pt)"

definition ZOBRIST_SIDE :: int where
  "ZOBRIST_SIDE = zobristValues ! 768"

definition ZOBRIST_CASTLE :: "int \<Rightarrow> int" where
  "ZOBRIST_CASTLE i = zobristValues ! nat (769 + i)"

definition ZOBRIST_EP :: "int \<Rightarrow> int" where
  "ZOBRIST_EP f = zobristValues ! nat (773 + f)"

section \<open>The Zobrist key\<close>

text \<open>
  The inner loop of \<^verbatim>\<open>getZobristKey\<close> over \<^verbatim>\<open>pieceSets\<close>: the piece index of the first
  set that holds the square, white before black within a set.
\<close>

definition pieceSets :: "((position \<Rightarrow> bb2) \<times> int \<times> int) list" where
  "pieceSets = [(pawns, 0, 6), (knights, 1, 7), (bishops, 2, 8), (rooks, 3, 9),
                (queens, 4, 10), (kings, 5, 11)]"

fun probe :: "position \<Rightarrow> bitboard \<Rightarrow> ((position \<Rightarrow> bb2) \<times> int \<times> int) list \<Rightarrow> int option" where
  "probe p b [] = None"
| "probe p b ((arr, wPt, bPt) # rest) =
     (if of_color (arr p) WHITE AND b \<noteq> 0 then Some wPt
      else if of_color (arr p) BLACK AND b \<noteq> 0 then Some bPt
      else probe p b rest)"

definition pieceKey :: "position \<Rightarrow> int \<Rightarrow> int \<Rightarrow> int" where
  "pieceKey p sq key =
     (case probe p (bit_sq sq) pieceSets of
        None \<Rightarrow> key
      | Some pt \<Rightarrow> key XOR ZOBRIST_PIECES sq pt)"

text \<open>\<^verbatim>\<open>const castlingIndex = { K: 0, Q: 1, k: 2, q: 3 }\<close>\<close>

definition castlingIndex :: "char \<Rightarrow> int option" where
  "castlingIndex c =
     (if c = CHR ''K'' then Some 0 else if c = CHR ''Q'' then Some 1
      else if c = CHR ''k'' then Some 2 else if c = CHR ''q'' then Some 3 else None)"

text \<open>
  \<^verbatim>\<open>for (const c of this.castling) key ^= ZOBRIST_CASTLE[castlingIndex[c]];\<close>
  For any other character the table entry is \<^verbatim>\<open>undefined\<close>, and \<^verbatim>\<open>^=\<close> of a BigInt
  with it throws a TypeError.
\<close>

fun castlingKey :: "string \<Rightarrow> int \<Rightarrow> js_error + int" where
  "castlingKey [] key = Inr key"
| "castlingKey (c # cs) key =
     (case castlingIndex c of
        None \<Rightarrow> Inl TypeError
      | Some i \<Rightarrow> castlingKey cs (key XOR ZOBRIST_CASTLE i))"

definition getZobristKey :: "position \<Rightarrow> js_error + int" where
  "getZobristKey p =
     (let key1 = fold (pieceKey p) squares 0;
          key2 = (if sideToMove p = BLACK then key1 XOR ZOBRIST_SIDE else key1)
      in case castlingKey (castling p) key2 of
           Inl e \<Rightarrow> Inl e
         | Inr key3 \<Rightarrow>
             Inr (if enPassant p \<ge> 0 then key3 XOR ZOBRIST_EP (js_rem (enPassant p) 8)
                  else key3))"

section \<open>FEN export\<close>

text \<open>
  A whole number appended to a string: its decimal digits, after a minus sign when it
  is negative (numbers of \<open>10^21\<close> and more, which JavaScript prints with an exponent,
  do not occur among move counters).
\<close>

fun digits :: "nat \<Rightarrow> string" where
  "digits n = (if n < 10 then [char_of (48 + n)] else digits (n div 10) @ [char_of (48 + n mod 10)])"

declare digits.simps [simp del]

definition numStr :: "int \<Rightarrow> string" where
  "numStr i = (if i < 0 then CHR ''-'' # digits (nat (- i)) else digits (nat i))"

text \<open>\<^verbatim>\<open>const check = (arr, w, b) => arr[WHITE] & bb ? w : arr[BLACK] & bb ? b : null\<close>\<close>

definition check :: "bb2 \<Rightarrow> bitboard \<Rightarrow> char \<Rightarrow> char \<Rightarrow> char option" where
  "check arr bb w b =
     (if of_color arr WHITE AND bb \<noteq> 0 then Some w
      else if of_color arr BLACK AND bb \<noteq> 0 then Some b else None)"

text \<open>\<^verbatim>\<open>a || b\<close> on two results of \<^verbatim>\<open>check\<close>\<close>

definition orElse :: "char option \<Rightarrow> char option \<Rightarrow> char option" where
  "orElse a b = (case a of None \<Rightarrow> b | Some c \<Rightarrow> Some c)"

definition pieceAt :: "position \<Rightarrow> bitboard \<Rightarrow> char option" where
  "pieceAt p bb =
     orElse (check (pawns p) bb (CHR ''P'') (CHR ''p''))
    (orElse (check (knights p) bb (CHR ''N'') (CHR ''n''))
    (orElse (check (bishops p) bb (CHR ''B'') (CHR ''b''))
    (orElse (check (rooks p) bb (CHR ''R'') (CHR ''r''))
    (orElse (check (queens p) bb (CHR ''Q'') (CHR ''q''))
            (check (kings p) bb (CHR ''K'') (CHR ''k''))))))"

text \<open>
  The loop over the files of one rank, on the pieces found on its squares; \<open>emp\<close> is
  the counter \<^verbatim>\<open>empty\<close> of the loop. The result is the text appended to \<^verbatim>\<open>fen\<close>, including that of
  \<^verbatim>\<open>if (empty) fen += empty\<close> after the loop.
\<close>

fun fenCells :: "char option list \<Rightarrow> int \<Rightarrow> string" where
  "fenCells [] emp = (if emp \<noteq> 0 then numStr emp else [])"
| "fenCells (None # cs) emp = fenCells cs (emp + 1)"
| "fenCells (Some pc # cs) emp =
     (if emp \<noteq> 0 then numStr emp else []) @ [pc] @ fenCells cs 0"

definition fenRank :: "position \<Rightarrow> int \<Rightarrow> string" where
  "fenRank p r = fenCells (map (\<lambda>f. pieceAt p (bit_sq (r * 8 + f))) [0..7]) 0"

text \<open>The loop \<^verbatim>\<open>for (let r = 7; r >= 0; r--)\<close>, with \<^verbatim>\<open>if (r > 0) fen += "/"\<close>.\<close>

definition fenPlacement :: "position \<Rightarrow> string" where
  "fenPlacement p = concat (map (\<lambda>r. fenRank p r @ (if r > 0 then ''/'' else [])) (rev [0..7]))"

definition fenEnPassant :: "int \<Rightarrow> string" where
  "fenEnPassant ep =
     (if ep = - 1 then ''-''
      else char_of (nat (97 + js_rem ep 8)) # numStr (ep div 8 + 1))"

definition toFEN :: "position \<Rightarrow> string" where
  "toFEN p =
     fenPlacement p @ '' '' @ (if sideToMove p = WHITE then ''w'' else ''b'') @ '' ''
     @ (if castling p = [] then ''-'' else castling p) @ '' ''
     @ fenEnPassant (enPassant p) @ '' '' @ numStr (halfmove p) @ '' '' @ numStr (fullmove p)"

section \<open>FEN import\<close>

text \<open>\<^verbatim>\<open>s.split(/\s+/)\<close>: the pieces of \<open>s\<close> between its maximal runs of white space.\<close>

fun split_ws :: "string \<Rightarrow> string list" where
  "split_ws [] = [[]]"
| "split_ws (c # cs) =
     (if is_ws c
      then (if cs \<noteq> [] \<and> is_ws (hd cs) then split_ws cs else [] # split_ws cs)
      else (case split_ws cs of [] \<Rightarrow> [[c]] | t # ts \<Rightarrow> (c # t) # ts))"

text \<open>\<^verbatim>\<open>s.split('/')\<close>\<close>

fun split_on :: "char \<Rightarrow> string \<Rightarrow> string list" where
  "split_on sep [] = [[]]"
| "split_on sep (c # cs) =
     (if c = sep then [] # split_on sep cs
      else (case split_on sep cs of [] \<Rightarrow> [[c]] | t # ts \<Rightarrow> (c # t) # ts))"

text \<open>An array element that may be \<^verbatim>\<open>undefined\<close>.\<close>

definition nth_opt :: "'a list \<Rightarrow> nat \<Rightarrow> 'a option" where
  "nth_opt xs i = (if i < length xs then Some (xs ! i) else None)"

text \<open>
  \<^verbatim>\<open>parseInt(s, 10)\<close> on a token without white space: an optional sign and the longest
  run of digits; NaN when there is no digit.
\<close>

definition is_digit :: "char \<Rightarrow> bool" where
  "is_digit c \<longleftrightarrow> (48::nat) \<le> of_char c \<and> of_char c \<le> (57::nat)"

definition parseInt :: "string \<Rightarrow> int option" where
  "parseInt s =
     (let neg = (s \<noteq> [] \<and> hd s = CHR ''-'');
          body = (if s \<noteq> [] \<and> (hd s = CHR ''-'' \<or> hd s = CHR ''+'') then tl s else s);
          ds = takeWhile is_digit body;
          v = foldl (\<lambda>a c. 10 * a + (int (of_char c) - 48)) 0 ds
      in if ds = [] then None else Some (if neg then - v else v))"

text \<open>\<^verbatim>\<open>parseInt(tok, 10) || d\<close>, where \<^verbatim>\<open>tok\<close> may be \<^verbatim>\<open>undefined\<close>\<close>

definition parseIntOr :: "string option \<Rightarrow> int \<Rightarrow> int" where
  "parseIntOr tok d =
     (case tok of
        None \<Rightarrow> d
      | Some s \<Rightarrow> (case parseInt s of None \<Rightarrow> d | Some v \<Rightarrow> if v = 0 then d else v))"

text \<open>The chain \<^verbatim>\<open>if (ch === 'P') this.pawns[WHITE] |= b; else if ...\<close>\<close>

definition place :: "position \<Rightarrow> char \<Rightarrow> bitboard \<Rightarrow> position" where
  "place p ch b =
     (if ch = CHR ''P'' then p\<lparr>pawns := with_color (pawns p) WHITE (of_color (pawns p) WHITE OR b)\<rparr>
      else if ch = CHR ''N''
      then p\<lparr>knights := with_color (knights p) WHITE (of_color (knights p) WHITE OR b)\<rparr>
      else if ch = CHR ''B''
      then p\<lparr>bishops := with_color (bishops p) WHITE (of_color (bishops p) WHITE OR b)\<rparr>
      else if ch = CHR ''R''
      then p\<lparr>rooks := with_color (rooks p) WHITE (of_color (rooks p) WHITE OR b)\<rparr>
      else if ch = CHR ''Q''
      then p\<lparr>queens := with_color (queens p) WHITE (of_color (queens p) WHITE OR b)\<rparr>
      else if ch = CHR ''K''
      then p\<lparr>kings := with_color (kings p) WHITE (of_color (kings p) WHITE OR b)\<rparr>
      else if ch = CHR ''p''
      then p\<lparr>pawns := with_color (pawns p) BLACK (of_color (pawns p) BLACK OR b)\<rparr>
      else if ch = CHR ''n''
      then p\<lparr>knights := with_color (knights p) BLACK (of_color (knights p) BLACK OR b)\<rparr>
      else if ch = CHR ''b''
      then p\<lparr>bishops := with_color (bishops p) BLACK (of_color (bishops p) BLACK OR b)\<rparr>
      else if ch = CHR ''r''
      then p\<lparr>rooks := with_color (rooks p) BLACK (of_color (rooks p) BLACK OR b)\<rparr>
      else if ch = CHR ''q''
      then p\<lparr>queens := with_color (queens p) BLACK (of_color (queens p) BLACK OR b)\<rparr>
      else if ch = CHR ''k''
      then p\<lparr>kings := with_color (kings p) BLACK (of_color (kings p) BLACK OR b)\<rparr>
      else p)"

text \<open>
  \<^verbatim>\<open>for (const ch of rankStr) { if (f >= 8) break;
    if (ch >= '1' && ch <= '8') { f += parseInt(ch, 10); continue; }
    const sq = r * 8 + f; ...; f++; }\<close>
\<close>

fun loadRank :: "position \<Rightarrow> int \<Rightarrow> string \<Rightarrow> int \<Rightarrow> position" where
  "loadRank p r [] f = p"
| "loadRank p r (ch # rest) f =
     (if f \<ge> 8 then p
      else if is_rank ch then loadRank p r rest (f + (int (of_char ch) - 48))
      else loadRank (place p ch (bit_sq (r * 8 + f))) r rest (f + 1))"

text \<open>The loop \<^verbatim>\<open>for (let r = 0; r < 8; r++)\<close> with \<^verbatim>\<open>rankStr = ranks[7 - r]\<close>.\<close>

definition loadPlacement :: "position \<Rightarrow> string list \<Rightarrow> position" where
  "loadPlacement p ranks = fold (\<lambda>r q. loadRank q r (ranks ! nat (7 - r)) 0) [0..7] p"

text \<open>The en-passant field: \<^verbatim>\<open>tokens[3]\<close>, possibly \<^verbatim>\<open>undefined\<close>.\<close>

definition loadEnPassant :: "string option \<Rightarrow> int" where
  "loadEnPassant tok =
     (case tok of
        None \<Rightarrow> - 1
      | Some ep \<Rightarrow>
          if ep \<noteq> [] \<and> ep \<noteq> ''-''
          then (let file = int (of_char (ep ! 0)) - 97;
                    rank = (if 1 < length ep then map_option (\<lambda>n. n - 1) (parseInt_char (ep ! 1))
                            else None)
                in case rank of
                     None \<Rightarrow> - 1
                   | Some rk \<Rightarrow>
                       if file \<ge> 0 \<and> file < 8 \<and> rk \<ge> 0 \<and> rk < 8 then rk * 8 + file else - 1)
          else - 1)"

text \<open>
  \<^verbatim>\<open>loadFromFEN\<close> on a string; the position is left as it is on the three early returns.
\<close>

definition loadFromFEN :: "position \<Rightarrow> string \<Rightarrow> position" where
  "loadFromFEN p fen =
     (if fen = [] then p
      else (let tokens = split_ws (trim fen); placement = tokens ! 0
            in if placement = [] then p
               else (let ranks = split_on (CHR ''/'') placement
                     in if length ranks \<noteq> 8 then p
                        else (let p0 = p\<lparr>pawns := (0, 0), knights := (0, 0), bishops := (0, 0),
                                        rooks := (0, 0), queens := (0, 0), kings := (0, 0)\<rparr>;
                                  p1 = loadPlacement p0 ranks;
                                  cs = nth_opt tokens 2
                              in p1\<lparr>sideToMove := (if nth_opt tokens 1 = Some ''b''
                                                    then BLACK else WHITE),
                                     castling := (case cs of
                                                    None \<Rightarrow> []
                                                  | Some c \<Rightarrow> if c \<noteq> [] \<and> c \<noteq> ''-'' then c else []),
                                     enPassant := loadEnPassant (nth_opt tokens 3),
                                     halfmove := parseIntOr (nth_opt tokens 4) 0,
                                     fullmove := parseIntOr (nth_opt tokens 5) 1\<rparr>))))"

text \<open>
  The empty board imported from a FEN with the castling field \<^verbatim>\<open>K\<close>, and from one that
  writes the same right twice.
\<close>

definition imported_K :: position where
  "imported_K = loadFromFEN reset ''8/8/8/8/8/8/8/8 w K - 0 1''"

definition imported_KK :: position where
  "imported_KK = loadFromFEN reset ''8/8/8/8/8/8/8/8 w KK - 0 1''"

section \<open>The C engine (src/bitboard_chess.c): parsing and resolving SAN\<close>

text \<open>
  The C engine keeps the piece sets in \<^verbatim>\<open>uint64_t\<close>. A text is a C string: the
  characters before the terminating NUL. \<^verbatim>\<open>int\<close> values are squares, character codes
  and small counts, far from overflow, and are \<^typ>\<open>int\<close>; \<^verbatim>\<open>%\<close> and \<^verbatim>\<open>/\<close> on them
  truncate, as \<^const>\<open>js_rem\<close> and \<^const>\<open>js_quot\<close> do.
\<close>

type_synonym u64 = "64 word"

text \<open>
  \<^verbatim>\<open>#define BIT(sq) (UINT64_C(1) << (sq))\<close> for a count from 0 to 63. A count outside
  is undefined behaviour; \<open>resolve_san\<close> below marks the one place where the code can
  reach it.
\<close>

definition BIT :: "int \<Rightarrow> u64" where
  "BIT sq = push_bit (nat sq) 1"

definition in_board :: "int \<Rightarrow> int \<Rightarrow> bool" where
  "in_board f r \<longleftrightarrow> f \<ge> 0 \<and> f < 8 \<and> r \<ge> 0 \<and> r < 8"

definition kd :: "(int \<times> int) list" where
  "kd = [(1, 2), (2, 1), (2, -1), (1, -2), (-1, -2), (-2, -1), (-2, 1), (-1, 2)]"

text \<open>
  The offsets visited by \<^verbatim>\<open>for (df = -1; df <= 1; df++) for (dr = -1; dr <= 1; dr++)\<close>
  with \<^verbatim>\<open>if (df == 0 && dr == 0) continue\<close>.
\<close>

definition king_offsets :: "(int \<times> int) list" where
  "king_offsets =
     filter (\<lambda>(df, dr). \<not> (df = 0 \<and> dr = 0))
       (concat (map (\<lambda>df. map (\<lambda>dr. (df, dr)) [- 1, 0, 1]) [- 1, 0, 1]))"

definition offset_attacks :: "(int \<times> int) list \<Rightarrow> int \<Rightarrow> u64" where
  "offset_attacks ds sq =
     (let f = js_rem sq 8; r = js_quot sq 8
      in fold (\<lambda>(df, dr) bb.
           let nf = f + df; nr = r + dr
           in if in_board nf nr then bb OR BIT (nr * 8 + nf) else bb) ds 0)"

text \<open>The tables \<^verbatim>\<open>knight_attacks[64]\<close> and \<^verbatim>\<open>king_attacks[64]\<close>, at an index 0 to 63.\<close>

definition knight_attacks :: "int \<Rightarrow> u64" where
  "knight_attacks sq = offset_attacks kd sq"

definition king_attacks :: "int \<Rightarrow> u64" where
  "king_attacks sq = offset_attacks king_offsets sq"

text \<open>\<^verbatim>\<open>file_masks[f]\<close> and \<^verbatim>\<open>rank_masks[r]\<close>, at an index 0 to 7.\<close>

definition file_masks :: "int \<Rightarrow> u64" where
  "file_masks f = fold (\<lambda>r m. m OR BIT (r * 8 + f)) [0..7] 0"

definition rank_masks :: "int \<Rightarrow> u64" where
  "rank_masks r = push_bit (nat (r * 8)) 255"

fun c_ray :: "u64 \<Rightarrow> int list \<Rightarrow> u64 \<Rightarrow> u64" where
  "c_ray occ [] bb = bb"
| "c_ray occ (s # ss) bb =
     (let bb' = bb OR BIT s
      in if occ AND BIT s \<noteq> 0 then bb' else c_ray occ ss bb')"

definition get_rook_attacks :: "int \<Rightarrow> u64 \<Rightarrow> u64" where
  "get_rook_attacks sq occ =
     (let f = js_rem sq 8; r = js_quot sq 8;
          bb1 = c_ray occ (map (\<lambda>nf. r * 8 + nf) [f + 1..7]) 0;
          bb2 = c_ray occ (map (\<lambda>nf. r * 8 + nf) (rev [0..f - 1])) bb1;
          bb3 = c_ray occ (map (\<lambda>nr. nr * 8 + f) [r + 1..7]) bb2;
          bb4 = c_ray occ (map (\<lambda>nr. nr * 8 + f) (rev [0..r - 1])) bb3
      in bb4)"

definition get_bishop_attacks :: "int \<Rightarrow> u64 \<Rightarrow> u64" where
  "get_bishop_attacks sq occ =
     (let f = js_rem sq 8; r = js_quot sq 8;
          bb1 = c_ray occ (map (\<lambda>d. (r + d) * 8 + (f + d))
                  (takeWhile (\<lambda>d. \<not> (f + d \<ge> 8 \<or> r + d \<ge> 8)) [1..7])) 0;
          bb2 = c_ray occ (map (\<lambda>d. (r + d) * 8 + (f - d))
                  (takeWhile (\<lambda>d. \<not> (f - d < 0 \<or> r + d \<ge> 8)) [1..7])) bb1;
          bb3 = c_ray occ (map (\<lambda>d. (r - d) * 8 + (f + d))
                  (takeWhile (\<lambda>d. \<not> (f + d \<ge> 8 \<or> r - d < 0)) [1..7])) bb2;
          bb4 = c_ray occ (map (\<lambda>d. (r - d) * 8 + (f - d))
                  (takeWhile (\<lambda>d. \<not> (f - d < 0 \<or> r - d < 0)) [1..7])) bb3
      in bb4)"

definition pawn_capture_sources :: "int \<Rightarrow> color \<Rightarrow> u64" where
  "pawn_capture_sources to_square c =
     (let f = js_rem to_square 8; r = js_quot to_square 8
      in case c of
           WHITE \<Rightarrow>
             (let bb1 = (if r \<ge> 1 \<and> f \<ge> 1 then BIT ((r - 1) * 8 + (f - 1)) else 0)
              in if r \<ge> 1 \<and> f < 7 then bb1 OR BIT ((r - 1) * 8 + (f + 1)) else bb1)
         | BLACK \<Rightarrow>
             (let bb1 = (if r < 7 \<and> f \<ge> 1 then BIT ((r + 1) * 8 + (f - 1)) else 0)
              in if r < 7 \<and> f < 7 then bb1 OR BIT ((r + 1) * 8 + (f + 1)) else bb1))"

fun c_findSingle :: "u64 \<Rightarrow> int list \<Rightarrow> int \<Rightarrow> int" where
  "c_findSingle bb [] found = found"
| "c_findSingle bb (sq # sqs) found =
     (if bb AND BIT sq \<noteq> 0
      then (if found \<ge> 0 then - 1 else c_findSingle bb sqs sq)
      else c_findSingle bb sqs found)"

definition filter_disamb :: "u64 \<Rightarrow> int \<Rightarrow> int \<Rightarrow> int" where
  "filter_disamb cands disamb_file disamb_rank =
     (let bb1 = (if disamb_file \<ge> 0 then cands AND file_masks disamb_file else cands);
          bb2 = (if disamb_rank \<ge> 0 then bb1 AND rank_masks disamb_rank else bb1)
      in c_findSingle bb2 squares (- 1))"

text \<open>\<^verbatim>\<open>ParseSANResult\<close>; a character is held as its code, 0 when absent.\<close>

record c_parsed =
  ps_piece :: int
  ps_targetIndex :: int
  ps_disambFile :: int
  ps_disambRank :: int
  ps_promotion :: int
  ps_castle :: int

definition square_to_index :: "char \<Rightarrow> char \<Rightarrow> int" where
  "square_to_index c0 c1 =
     (let file = int (of_char c0) - 97; rank = int (of_char c1) - 49
      in rank * 8 + file)"

text \<open>
  \<^verbatim>\<open>parse_san\<close>: \<^term>\<open>None\<close> is the result \<^verbatim>\<open>false\<close>. \<^verbatim>\<open>strncmp(san, "O-O-O", 5) == 0\<close>
  holds when the text starts with these five characters, and likewise for the three of
  \<^verbatim>\<open>"O-O"\<close>; the loop \<^verbatim>\<open>while (rest_len > 0 && san[rest_len - 1] == 'x') rest_len--\<close>
  drops every trailing \<^verbatim>\<open>x\<close>.
\<close>

definition parse_san :: "string \<Rightarrow> c_parsed option" where
  "parse_san text =
     (let san = dropWhile (\<lambda>c. c = CHR '' '') text
      in if take 5 san = ''O-O-O''
         then Some \<lparr>ps_piece = 0, ps_targetIndex = - 1, ps_disambFile = - 1,
                    ps_disambRank = - 1, ps_promotion = 0, ps_castle = 81\<rparr>
         else if take 3 san = ''O-O''
         then Some \<lparr>ps_piece = 0, ps_targetIndex = - 1, ps_disambFile = - 1,
                    ps_disambRank = - 1, ps_promotion = 0, ps_castle = 75\<rparr>
         else (let len = length san
               in if len < 2 then None
                  else (let promo = (len \<ge> 4 \<and> san ! (len - 2) = CHR ''=''
                                     \<and> san ! (len - 1) \<in> set ''NBRQ'');
                            promotion = (if promo then int (of_char (san ! (len - 1))) + 32
                                         else 0);
                            p = (if promo then drop (len - 4) san else drop (len - 2) san)
                        in if (of_char (p ! 0) :: nat) < 97 \<or> (of_char (p ! 0) :: nat) > 104
                              \<or> (of_char (p ! 1) :: nat) < 49 \<or> (of_char (p ! 1) :: nat) > 56
                           then None
                           else (let rest_len0 = (if promo then len - 2 - 2 else len - 2);
                                     rest_len = length (rev (dropWhile (\<lambda>c. c = CHR ''x'')
                                                  (rev (take rest_len0 san))));
                                     isPiece = (rest_len > 0 \<and> san ! 0 \<in> set ''NBRQK'');
                                     pc = (if isPiece then int (of_char (san ! 0)) else 0);
                                     dF1 = (if rest_len > 0 \<and> isPiece
                                            then (if rest_len \<ge> 2 \<and> is_file (san ! 1)
                                                  then int (of_char (san ! 1)) - 97 else - 1)
                                            else if rest_len \<ge> 1 \<and> is_file (san ! 0)
                                            then int (of_char (san ! 0)) - 97 else - 1);
                                     dR1 = (if rest_len \<ge> 1 \<and> is_rank (san ! (rest_len - 1))
                                            then int (of_char (san ! (rest_len - 1))) - 49
                                            else - 1);
                                     both = (rest_len = 2 \<and> is_file (san ! 0)
                                             \<and> is_rank (san ! 1));
                                     dF = (if both then int (of_char (san ! 0)) - 97 else dF1);
                                     dR = (if both then int (of_char (san ! 1)) - 49 else dR1)
                                 in Some \<lparr>ps_piece = pc, ps_targetIndex = square_to_index (p ! 0) (p ! 1),
                                           ps_disambFile = dF, ps_disambRank = dR,
                                           ps_promotion = promotion, ps_castle = 0\<rparr>))))"

text \<open>\<^verbatim>\<open>Board\<close>, with the fields the resolver reads, and \<^verbatim>\<open>Move\<close>.\<close>

record board =
  b_pawns :: "u64 \<times> u64"
  b_knights :: "u64 \<times> u64"
  b_bishops :: "u64 \<times> u64"
  b_rooks :: "u64 \<times> u64"
  b_queens :: "u64 \<times> u64"
  b_kings :: "u64 \<times> u64"
  b_sideToMove :: color
  b_castling :: string
  b_enPassant :: int
  b_halfmove :: int
  b_fullmove :: int

record c_move =
  mv_from :: int
  mv_to :: int
  mv_promotion :: int
  mv_castle :: int
  mv_enpassant :: bool

text \<open>\<^verbatim>\<open>arr[color]\<close>\<close>

fun at_color :: "u64 \<times> u64 \<Rightarrow> color \<Rightarrow> u64" where
  "at_color (w, b) WHITE = w"
| "at_color (w, b) BLACK = b"

definition board_reset :: board where
  "board_reset =
     \<lparr>b_pawns = (0x000000000000FF00, 0x00FF000000000000),
      b_knights = (0x0000000000000042, 0x4200000000000000),
      b_bishops = (0x0000000000000024, 0x2400000000000000),
      b_rooks = (0x0000000000000081, 0x8100000000000000),
      b_queens = (0x0000000000000008, 0x0800000000000000),
      b_kings = (0x0000000000000010, 0x1000000000000000),
      b_sideToMove = WHITE, b_castling = ''KQkq'', b_enPassant = - 1, b_halfmove = 0,
      b_fullmove = 1\<rparr>"

definition c_occupancy :: "board \<Rightarrow> color \<Rightarrow> u64" where
  "c_occupancy b c =
     (at_color (b_pawns b) c OR at_color (b_knights b) c OR at_color (b_bishops b) c
      OR at_color (b_rooks b) c OR at_color (b_queens b) c OR at_color (b_kings b) c)"

definition all_occ :: "board \<Rightarrow> u64" where
  "all_occ b = (c_occupancy b WHITE OR c_occupancy b BLACK)"

text \<open>
  What \<^verbatim>\<open>resolve_san\<close> does: undefined behaviour, \<^verbatim>\<open>false\<close>, or \<^verbatim>\<open>true\<close> with the
  move it wrote.
\<close>

datatype c_resolved = Undefined | NoMove | Resolved c_move

text \<open>
  The candidates of \<^verbatim>\<open>resolve_san\<close>. For a pawn push the code shifts by \<^verbatim>\<open>one_back\<close>,
  which lies off the board for a destination on White's first or Black's last rank.
\<close>

definition c_candidates :: "board \<Rightarrow> c_parsed \<Rightarrow> u64 option" where
  "c_candidates b p =
     (let side = b_sideToMove b; occ = all_occ b; to_square = ps_targetIndex p
      in if ps_piece p = 75 then Some (king_attacks to_square AND at_color (b_kings b) side)
         else if ps_piece p = 78 then Some (knight_attacks to_square AND at_color (b_knights b) side)
         else if ps_piece p = 82
         then Some (get_rook_attacks to_square occ AND at_color (b_rooks b) side)
         else if ps_piece p = 66
         then Some (get_bishop_attacks to_square occ AND at_color (b_bishops b) side)
         else if ps_piece p = 81
         then Some ((get_rook_attacks to_square occ OR get_bishop_attacks to_square occ)
                    AND at_color (b_queens b) side)
         else if ps_disambFile p \<ge> 0
         then Some ((pawn_capture_sources to_square side AND at_color (b_pawns b) side)
                    AND file_masks (ps_disambFile p))
         else (let one_back = (if side = WHITE then to_square - 8 else to_square + 8);
                   two_back = (if side = WHITE then to_square - 16 else to_square + 16);
                   to_rank = js_quot to_square 8
               in if one_back < 0 \<or> one_back \<ge> 64 then None
                  else if at_color (b_pawns b) side AND BIT one_back \<noteq> 0
                  then Some (BIT one_back)
                  else if (if side = WHITE then to_rank = 3 else to_rank = 4)
                          \<and> at_color (b_pawns b) side AND BIT two_back \<noteq> 0
                          \<and> \<not> (occ AND BIT one_back \<noteq> 0)
                  then Some (BIT two_back)
                  else Some 0))"

fun c_countLoop :: "u64 \<Rightarrow> int list \<Rightarrow> int \<Rightarrow> int \<Rightarrow> int \<times> int" where
  "c_countLoop c [] cnt from_square = (cnt, from_square)"
| "c_countLoop c (sq # sqs) cnt from_square =
     (if c AND BIT sq \<noteq> 0
      then (if cnt + 1 > 1 then (cnt + 1, sq) else c_countLoop c sqs (cnt + 1) sq)
      else c_countLoop c sqs cnt from_square)"

definition resolve_san :: "board \<Rightarrow> string \<Rightarrow> c_resolved" where
  "resolve_san b san =
     (case parse_san san of
        None \<Rightarrow> NoMove
      | Some p \<Rightarrow>
          (let side = b_sideToMove b; occ = all_occ b; to_square = ps_targetIndex p
           in if ps_castle p \<noteq> 0
              then Resolved \<lparr>mv_from = (if side = WHITE then 4 else 60),
                              mv_to = (if ps_castle p = 75
                                       then (if side = WHITE then 6 else 62)
                                       else (if side = WHITE then 2 else 58)),
                              mv_promotion = 0, mv_castle = ps_castle p, mv_enpassant = False\<rparr>
              else case c_candidates b p of
                     None \<Rightarrow> Undefined
                   | Some c \<Rightarrow>
                       (let from0 = filter_disamb c (ps_disambFile p) (ps_disambRank p);
                            from_square = (if from0 < 0 \<and> c \<noteq> 0
                                       then (case c_countLoop c squares 0 from0 of
                                               (cnt, f) \<Rightarrow> if cnt \<noteq> 1 then - 1 else f)
                                       else from0)
                        in if from_square < 0 then NoMove
                           else Resolved \<lparr>mv_from = from_square, mv_to = to_square,
                                           mv_promotion = ps_promotion p, mv_castle = 0,
                                           mv_enpassant = (ps_piece p = 0 \<and> ps_disambFile p \<ge> 0
                                                           \<and> \<not> (occ AND BIT to_square \<noteq> 0))\<rparr>)))"

section \<open>Notions used in the proofs\<close>

text \<open>A string without white space.\<close>

definition no_ws :: "string \<Rightarrow> bool" where
  "no_ws s \<longleftrightarrow> (\<forall>c \<in> set s. \<not> is_ws c)"

text \<open>The piece letters, in the order in which \<^verbatim>\<open>toFEN\<close> probes the piece sets.\<close>

definition pieceChars :: string where
  "pieceChars = ''PpNnBbRrQqKk''"

text \<open>The piece set a FEN letter stands for.\<close>

definition setOf :: "position \<Rightarrow> char \<Rightarrow> bitboard" where
  "setOf q c =
     (if c = CHR ''P'' then of_color (pawns q) WHITE
      else if c = CHR ''p'' then of_color (pawns q) BLACK
      else if c = CHR ''N'' then of_color (knights q) WHITE
      else if c = CHR ''n'' then of_color (knights q) BLACK
      else if c = CHR ''B'' then of_color (bishops q) WHITE
      else if c = CHR ''b'' then of_color (bishops q) BLACK
      else if c = CHR ''R'' then of_color (rooks q) WHITE
      else if c = CHR ''r'' then of_color (rooks q) BLACK
      else if c = CHR ''Q'' then of_color (queens q) WHITE
      else if c = CHR ''q'' then of_color (queens q) BLACK
      else if c = CHR ''K'' then of_color (kings q) WHITE
      else if c = CHR ''k'' then of_color (kings q) BLACK
      else 0)"

text \<open>The pieces of one rank placed from file \<open>f\<close> on, square by square.\<close>

fun placeAll :: "position \<Rightarrow> int \<Rightarrow> int \<Rightarrow> char option list \<Rightarrow> position" where
  "placeAll q r f [] = q"
| "placeAll q r f (None # cs) = placeAll q r (f + 1) cs"
| "placeAll q r f (Some c # cs) = placeAll (place q c (bit_sq (r * 8 + f))) r (f + 1) cs"

text \<open>What \<^verbatim>\<open>toFEN\<close> finds on the eight squares of a rank.\<close>

definition rankCells :: "position \<Rightarrow> int \<Rightarrow> char option list" where
  "rankCells p r = map (\<lambda>f. pieceAt p (bit_sq (r * 8 + f))) [0..7]"

text \<open>The piece index of \<^verbatim>\<open>getZobristKey\<close> for a FEN letter.\<close>

definition ptOf :: "char \<Rightarrow> int" where
  "ptOf c =
     (if c = CHR ''P'' then 0 else if c = CHR ''N'' then 1 else if c = CHR ''B'' then 2
      else if c = CHR ''R'' then 3 else if c = CHR ''Q'' then 4 else if c = CHR ''K'' then 5
      else if c = CHR ''p'' then 6 else if c = CHR ''n'' then 7 else if c = CHR ''b'' then 8
      else if c = CHR ''r'' then 9 else if c = CHR ''q'' then 10 else 11)"

text \<open>A move object whose squares are on the board (origin and destination 0 to 63).\<close>

definition validSquares :: "move \<Rightarrow> bool" where
  "validSquares m \<longleftrightarrow> 0 \<le> from_sq m \<and> from_sq m < 64 \<and> 0 \<le> to_sq m \<and> to_sq m < 64"

text \<open>An unsigned 64-bit value.\<close>

definition fits64 :: "int \<Rightarrow> bool" where
  "fits64 k \<longleftrightarrow> 0 \<le> k \<and> k < 2 ^ 64"

text \<open>
  The castling string holds only the four letters, and the en-passant square is absent
  or on the board.
\<close>

definition wellFormed :: "position \<Rightarrow> bool" where
  "wellFormed p \<longleftrightarrow>
     set (castling p) \<subseteq> set ''KQkq'' \<and> (enPassant p = - 1 \<or> 0 \<le> enPassant p \<and> enPassant p < 64)"

section \<open>Basic facts\<close>

lemma bit_sq_nonneg: "0 \<le> sq \<Longrightarrow> bit_sq sq = push_bit (nat sq) 1"
  by (simp add: bit_sq_def shl_def)

lemma bit_sq_neg: "sq < 0 \<Longrightarrow> bit_sq sq = 0"
  by (simp add: bit_sq_def shl_def)

lemma of_color_with_color [simp]: "of_color (with_color arr c v) c = v"
  by (cases arr; cases c) simp_all

lemma of_color_with_color_other [simp]:
  "c \<noteq> d \<Longrightarrow> of_color (with_color arr c v) d = of_color arr d"
  by (cases arr; cases c; cases d) simp_all

lemma finishMove_fields [simp]:
  "pawns (finishMove p) = pawns p" "knights (finishMove p) = knights p"
  "bishops (finishMove p) = bishops p" "rooks (finishMove p) = rooks p"
  "queens (finishMove p) = queens p" "kings (finishMove p) = kings p"
  "castling (finishMove p) = castling p" "enPassant (finishMove p) = enPassant p"
  "sideToMove (finishMove p) = other (sideToMove p)"
  by (simp_all add: finishMove_def Let_def)

lemma updateCastling_fields [simp]:
  "pawns (updateCastling p m b) = pawns p" "knights (updateCastling p m b) = knights p"
  "bishops (updateCastling p m b) = bishops p" "rooks (updateCastling p m b) = rooks p"
  "queens (updateCastling p m b) = queens p" "kings (updateCastling p m b) = kings p"
  "enPassant (updateCastling p m b) = enPassant p"
  "sideToMove (updateCastling p m b) = sideToMove p"
  by (simp_all add: updateCastling_def Let_def)

lemma updateEnPassant_fields [simp]:
  "pawns (updateEnPassant p m b) = pawns p" "knights (updateEnPassant p m b) = knights p"
  "bishops (updateEnPassant p m b) = bishops p" "rooks (updateEnPassant p m b) = rooks p"
  "queens (updateEnPassant p m b) = queens p" "kings (updateEnPassant p m b) = kings p"
  "castling (updateEnPassant p m b) = castling p"
  "sideToMove (updateEnPassant p m b) = sideToMove p"
  by (simp_all add: updateEnPassant_def)

lemma removeCaptured_fields [simp]:
  "sideToMove (removeCaptured p m) = sideToMove p"
  "castling (removeCaptured p m) = castling p"
  "enPassant (removeCaptured p m) = enPassant p"
  by (simp_all add: removeCaptured_def Let_def)

lemma relocate_fields [simp]:
  "sideToMove (snd (relocate p a b)) = sideToMove p"
  "castling (snd (relocate p a b)) = castling p"
  "enPassant (snd (relocate p a b)) = enPassant p"
  by (simp_all add: relocate_def Let_def)

lemma promote_fields [simp]:
  "sideToMove (promote p m) = sideToMove p" "castling (promote p m) = castling p"
  "enPassant (promote p m) = enPassant p"
  by (simp_all add: promote_def Let_def)

lemma and_bit_sq: "0 \<le> sq \<Longrightarrow> (x AND bit_sq sq \<noteq> 0) = bit x (nat sq)"
proof -
  assume "0 \<le> sq"
  then have "bit_sq sq = push_bit (nat sq) 1" by (simp add: bit_sq_def shl_def)
  then show ?thesis
    by (simp add: and_exp_eq_0_iff_not_bit push_bit_eq_mult)
qed

section \<open>The move applicator leaves the halfmove clock alone\<close>

lemma halfmove_finishMove: "halfmove (finishMove p) = halfmove p"
  by (simp add: finishMove_def Let_def)

lemma halfmove_castleMove: "halfmove (castleMove p m) = halfmove p"
  by (simp add: castleMove_def Let_def halfmove_finishMove)

lemma halfmove_removeCaptured: "halfmove (removeCaptured p m) = halfmove p"
  by (simp add: removeCaptured_def Let_def)

lemma halfmove_relocate: "halfmove (snd (relocate p a b)) = halfmove p"
  by (simp add: relocate_def Let_def)

lemma halfmove_promote: "halfmove (promote p m) = halfmove p"
  by (simp add: promote_def Let_def)

lemma halfmove_updateEnPassant: "halfmove (updateEnPassant p m b) = halfmove p"
  by (simp add: updateEnPassant_def)

lemma halfmove_updateCastling: "halfmove (updateCastling p m b) = halfmove p"
  by (simp add: updateCastling_def Let_def)

lemma halfmove_makeMove: "halfmove (makeMove p m) = halfmove p"
  by (simp add: makeMove_def Let_def split_beta halfmove_finishMove halfmove_castleMove
      halfmove_removeCaptured halfmove_relocate halfmove_promote halfmove_updateEnPassant
      halfmove_updateCastling)

text \<open>
  C9. \<^verbatim>\<open>makeMove\<close> never writes \<^verbatim>\<open>halfmove\<close>: for every position and every move
  object, castle or not, the clock after the call is the clock before it; and so it is
  after \<^verbatim>\<open>makeMoveSAN\<close>, whatever the text. Only \<^verbatim>\<open>reset\<close> and \<^verbatim>\<open>loadFromFEN\<close>
  assign it.
\<close>

theorem makeMove_halfmove:
  "halfmove (makeMove p m) = halfmove p
   \<and> (case makeMoveSAN p san of Inl e \<Rightarrow> True | Inr (ok, q) \<Rightarrow> halfmove q = halfmove p)"
  by (simp add: halfmove_makeMove makeMoveSAN_def split: sum.splits option.splits)

section \<open>Castling rights after a king move\<close>

text \<open>
  C1 says that a non-castle move of the king clears both castling rights of the moving
  side. Step 7 of \<^verbatim>\<open>makeMove\<close> tests \<^verbatim>\<open>fromBB & this.kings[side]\<close> after step 4 has
  already moved the king away from its origin, so the test fails. Here: after 1. e4 e5
  the white king stands on e1 (square 4), White is to move and holds \<^verbatim>\<open>KQkq\<close>; after
  \<^verbatim>\<open>makeMove({ from: 4, to: 12 })\<close> (Ke2) the rights are still \<^verbatim>\<open>KQkq\<close>.
\<close>

theorem king_move_keeps_castling_rights:
  "of_color (kings after_e4_e5) WHITE AND bit_sq 4 \<noteq> 0
   \<and> sideToMove after_e4_e5 = WHITE
   \<and> castling after_e4_e5 = ''KQkq''
   \<and> castling (makeMove after_e4_e5 (plainMove 4 12)) = ''KQkq''"
  by code_simp

text \<open>
  The same holds for every move of a king that stands alone on its origin square: the
  castling string is what it was.
\<close>

lemma other_neq [simp]: "other c \<noteq> c" "c \<noteq> other c"
  by (cases c; simp)+

lemma removeCaptured_own:
  "of_color (pawns (removeCaptured p m)) (sideToMove p) = of_color (pawns p) (sideToMove p)"
  "of_color (knights (removeCaptured p m)) (sideToMove p) = of_color (knights p) (sideToMove p)"
  "of_color (bishops (removeCaptured p m)) (sideToMove p) = of_color (bishops p) (sideToMove p)"
  "of_color (rooks (removeCaptured p m)) (sideToMove p) = of_color (rooks p) (sideToMove p)"
  "of_color (queens (removeCaptured p m)) (sideToMove p) = of_color (queens p) (sideToMove p)"
  "of_color (kings (removeCaptured p m)) (sideToMove p) = of_color (kings p) (sideToMove p)"
  by (simp_all add: removeCaptured_def Let_def removeAt_def)

lemma promote_kings [simp]: "kings (promote p m) = kings p"
  by (simp add: promote_def Let_def)

lemma moved_bit_nat:
  assumes "i \<noteq> j" "bit k i"
  shows "push_bit i 1 AND ((k XOR push_bit i 1) OR push_bit j 1) = (0::int)"
  by (rule bit_eqI) (use assms in \<open>auto simp: bit_simps\<close>)

lemma moved_king_bit:
  assumes "0 \<le> a" "0 \<le> b" "a \<noteq> b" "k AND bit_sq a \<noteq> 0"
  shows "bit_sq a AND ((k XOR bit_sq a) OR bit_sq b) = 0"
proof -
  have ne: "nat a \<noteq> nat b" using assms(1-3) by simp
  have "bit k (nat a)" using assms(1,4) by (simp add: and_bit_sq)
  then show ?thesis
    using moved_bit_nat [OF ne] assms(1,2) by (simp add: bit_sq_nonneg)
qed

lemma king_move_castling_unchanged:
  assumes "\<not> truthy (castle m)" and "0 \<le> from_sq m" and "0 \<le> to_sq m"
    and "from_sq m \<noteq> to_sq m"
    and "of_color (kings p) (sideToMove p) AND bit_sq (from_sq m) \<noteq> 0"
    and "of_color (pawns p) (sideToMove p) AND bit_sq (from_sq m) = 0"
    and "of_color (knights p) (sideToMove p) AND bit_sq (from_sq m) = 0"
    and "of_color (bishops p) (sideToMove p) AND bit_sq (from_sq m) = 0"
    and "of_color (rooks p) (sideToMove p) AND bit_sq (from_sq m) = 0"
    and "of_color (queens p) (sideToMove p) AND bit_sq (from_sq m) = 0"
  shows "castling (makeMove p m) = castling p"
proof -
  let ?f = "bit_sq (from_sq m)" and ?t = "bit_sq (to_sq m)"
  let ?s = "sideToMove p"
  define p1 where "p1 = removeCaptured p m"
  have s1: "sideToMove p1 = ?s" and c1: "castling p1 = castling p"
    by (simp_all add: p1_def)
  have own: "of_color (pawns p1) ?s AND ?f = 0" "of_color (knights p1) ?s AND ?f = 0"
    "of_color (bishops p1) ?s AND ?f = 0" "of_color (rooks p1) ?s AND ?f = 0"
    "of_color (queens p1) ?s AND ?f = 0"
    "of_color (kings p1) ?s = of_color (kings p) ?s"
    using assms(6-10) by (simp_all add: p1_def removeCaptured_own)
  have rel: "relocate p1 ?f ?t = (False, p1\<lparr>kings := with_color (kings p1) ?s
      ((of_color (kings p) ?s XOR ?f) OR ?t)\<rparr>)"
    using own assms(5) by (simp add: relocate_def Let_def movePiece_def s1)
  have z: "?f AND ((of_color (kings p) ?s XOR ?f) OR ?t) = 0"
    using assms(2-5) by (rule moved_king_bit)
  show ?thesis
    using assms(1) own(4) z
    by (simp add: makeMove_def Let_def p1_def [symmetric] rel updateCastling_def s1 c1)
qed

section \<open>The en-passant square after castling\<close>

text \<open>
  C2 says that every move other than a two-square pawn advance, a castle included, clears
  the en-passant square. The castle branch of \<^verbatim>\<open>makeMove\<close> returns before step 6 and
  never writes \<^verbatim>\<open>enPassant\<close>. Here: after 1. Nf3 Nf6 2. g3 g6 3. Bg2 d5 the en-passant
  square is d6 (43), and after White castles short it is still 43.
\<close>

theorem castle_keeps_enPassant:
  "enPassant before_white_castles = 43
   \<and> enPassant (makeMove before_white_castles
        \<lparr>from_sq = 4, to_sq = 6, promotion = None, castle = Some ''K'', enpassant = False\<rparr>)
      = 43"
  by code_simp

text \<open>The castle branch keeps whatever en-passant square there was.\<close>

lemma castleMove_enPassant: "enPassant (castleMove p m) = enPassant p"
  by (simp add: castleMove_def Let_def)

text \<open>Every other move sets it to the midpoint of a two-square pawn move, or clears it.\<close>

lemma makeMove_enPassant_cleared:
  assumes "\<not> truthy (castle m)"
    and "\<not> (of_color (pawns p) (sideToMove p) AND bit_sq (from_sq m) \<noteq> 0
            \<and> \<bar>to_sq m - from_sq m\<bar> = 16)"
  shows "enPassant (makeMove p m) = - 1"
proof -
  have "of_color (pawns (removeCaptured p m)) (sideToMove p) = of_color (pawns p) (sideToMove p)"
    by (cases "sideToMove p") (simp_all add: removeCaptured_def Let_def removeAt_def)
  then have "fst (relocate (removeCaptured p m) (bit_sq (from_sq m)) (bit_sq (to_sq m)))
      \<longleftrightarrow> of_color (pawns p) (sideToMove p) AND bit_sq (from_sq m) \<noteq> 0"
    by (simp add: relocate_def Let_def movePiece_def)
  then show ?thesis
    using assms by (auto simp: makeMove_def Let_def split_beta updateEnPassant_def)
qed

section \<open>Check and checkmate marks\<close>

lemma parse_san_check_suffix: "parse_san ''Bb5+'' = None"
  by code_simp

text \<open>
  C4 says that a SAN text with a trailing \<^verbatim>\<open>+\<close> or \<^verbatim>\<open>#\<close> resolves to the move of the
  text without it. The pattern of \<^verbatim>\<open>parseSAN\<close> is anchored at the end of the text, so
  the mark makes the match fail. Here: after 1. e4 c5 2. Nf3 d6 the text \<^verbatim>\<open>Bb5\<close> resolves
  to f1-b5 and \<^verbatim>\<open>Bb5+\<close> resolves to nothing. The C engine looks for the square in the
  last two characters of the text and returns \<^verbatim>\<open>false\<close> as well, on every board.
\<close>

theorem check_suffix_not_resolved:
  "resolveSAN sicilian ''Bb5'' = Inr (Some (plainMove 5 33))
   \<and> resolveSAN sicilian ''Bb5+'' = Inr None
   \<and> resolve_san b ''Bb5+'' = NoMove"
proof -
  have "resolveSAN sicilian ''Bb5'' = Inr (Some (plainMove 5 33))"
    by code_simp
  moreover have "resolveSAN sicilian ''Bb5+'' = Inr None"
    by code_simp
  moreover have "resolve_san b ''Bb5+'' = NoMove"
    by (simp add: resolve_san_def parse_san_check_suffix)
  ultimately show ?thesis
    by blast
qed

section \<open>Disambiguation and the fall-back of the resolver\<close>

lemma findSingle_found:
  assumes "0 \<le> found" "\<forall>s \<in> set sqs. 0 \<le> s"
  shows "findSingle bb sqs found = (if filter (\<lambda>sq. bb AND bit_sq sq \<noteq> 0) sqs = [] then found else - 1)"
  using assms by (induction sqs arbitrary: found) auto

lemma findSingle_none:
  assumes "found < 0" "\<forall>s \<in> set sqs. 0 \<le> s"
  shows "findSingle bb sqs found =
     (case filter (\<lambda>sq. bb AND bit_sq sq \<noteq> 0) sqs of [] \<Rightarrow> found | [s] \<Rightarrow> s | _ \<Rightarrow> - 1)"
  using assms
proof (induction sqs arbitrary: found)
  case Nil
  then show ?case by simp
next
  case (Cons a sqs)
  then show ?case
    by (auto simp: findSingle_found split: list.splits)
qed

lemma squares_nonneg: "\<forall>s \<in> set squares. 0 \<le> s"
  by (simp add: squares_def)

lemma findSingle_squares:
  "findSingle bb squares (- 1) = (case squaresOf bb of [s] \<Rightarrow> s | _ \<Rightarrow> - 1)"
  using findSingle_none [of "- 1" squares bb] squares_nonneg
  by (simp add: squaresOf_def split: list.splits)

lemma findSingle_negative_iff:
  "findSingle bb squares (- 1) < 0 \<longleftrightarrow> length (squaresOf bb) \<noteq> 1"
proof -
  have "\<forall>s \<in> set (squaresOf bb). 0 \<le> s"
    using squares_nonneg by (simp add: squaresOf_def)
  then show ?thesis
    by (auto simp: findSingle_squares split: list.splits)
qed

lemma countLoop_one:
  "countLoop c sqs 1 f = (if filter (\<lambda>sq. c AND bit_sq sq \<noteq> 0) sqs = [] then (1, f)
     else (2, hd (filter (\<lambda>sq. c AND bit_sq sq \<noteq> 0) sqs)))"
  by (induction sqs arbitrary: f) auto

lemma countLoop_zero:
  "countLoop c sqs 0 f =
     (case filter (\<lambda>sq. c AND bit_sq sq \<noteq> 0) sqs of
        [] \<Rightarrow> (0, f) | [s] \<Rightarrow> (1, s) | s # t # _ \<Rightarrow> (2, t))"
  by (induction sqs arbitrary: f) (auto simp: countLoop_one split: list.splits)

lemma countLoop_squares:
  "fst (countLoop c squares 0 f) = 1 \<longleftrightarrow> length (squaresOf c) = 1"
  by (auto simp: countLoop_zero squaresOf_def split: list.splits)


lemma chooseOrigin_null:
  assumes "applyDisamb c dF dR = Inr bb"
    and "length (squaresOf bb) \<noteq> 1" and "length (squaresOf c) \<noteq> 1"
  shows "chooseOrigin c dF dR = Inr (- 1)"
proof -
  have f: "filterDisamb c dF dR = Inr (findSingle bb squares (- 1))"
    using assms(1) by (simp add: filterDisamb_def)
  have neg: "findSingle bb squares (- 1) < 0"
    using assms(2) by (simp add: findSingle_negative_iff)
  have un: "findSingle bb squares (- 1) = - 1"
    by (simp add: findSingle_squares split: list.splits) (use assms(2) in auto)
  obtain cnt fs where cl: "countLoop c squares 0 (- 1) = (cnt, fs)"
    by (cases "countLoop c squares 0 (- 1)")
  have "cnt \<noteq> 1"
    using countLoop_squares [of c "- 1"] assms(3) cl by simp
  then show ?thesis
    using f un cl by (simp add: chooseOrigin_def)
qed

text \<open>
  C3 as the code has it: when a SAN text carries a file or rank fragment and the candidates
  left after the masks are not exactly one, \<^verbatim>\<open>resolveSAN\<close> returns \<^verbatim>\<open>null\<close> provided
  the candidate set before the masks is not a single square either (when it is, the
  second loop of \<^verbatim>\<open>resolveSAN\<close> takes that square).
\<close>

theorem resolveSAN_null_after_filter:
  assumes "parseSAN san = Some p" and "\<not> truthy (san_castle p)"
    and "disambFile p \<noteq> None \<or> disambRank p \<noteq> None"
    and "candidates pos p = Inr c"
    and "applyDisamb c (disambFile p) (disambRank p) = Inr bb"
    and "length (squaresOf bb) \<noteq> 1"
    and "length (squaresOf c) \<noteq> 1"
  shows "resolveSAN pos san = Inr None"
  using assms(1,2,4) chooseOrigin_null [OF assms(5,6,7)]
  by (simp add: resolveSAN_def Let_def)

theorem resolveSAN_null_after_filter_witness:
  "parseSAN ''Nad2'' =
     Some \<lparr>piece = Some CHR ''N'', targetIndex = 11, disambFile = Some CHR ''a'',
           disambRank = None, san_promotion = None, san_castle = None\<rparr>
   \<and> candidates two_knights
        \<lparr>piece = Some CHR ''N'', targetIndex = 11, disambFile = Some CHR ''a'',
         disambRank = None, san_promotion = None, san_castle = None\<rparr> = Inr 2097154
   \<and> applyDisamb 2097154 (Some CHR ''a'') None = Inr 0
   \<and> squaresOf 0 = [] \<and> squaresOf 2097154 = [1, 21]
   \<and> resolveSAN two_knights ''Nad2'' = Inr None"
proof -
  let ?p = "\<lparr>piece = Some CHR ''N'', targetIndex = 11, disambFile = Some CHR ''a'',
             disambRank = None, san_promotion = None, san_castle = None\<rparr>"
  have h1: "parseSAN ''Nad2'' = Some ?p" by code_simp
  have h2: "\<not> truthy (san_castle ?p)" by (simp add: truthy_def)
  have h3: "disambFile ?p \<noteq> None \<or> disambRank ?p \<noteq> None" by simp
  have h4: "candidates two_knights ?p = Inr 2097154" by code_simp
  have h5: "applyDisamb 2097154 (disambFile ?p) (disambRank ?p) = Inr 0" by code_simp
  have s0: "squaresOf 0 = []" by code_simp
  have s1: "squaresOf 2097154 = [1, 21]" by code_simp
  have h6: "length (squaresOf 0) \<noteq> 1" by (simp add: s0)
  have h7: "length (squaresOf 2097154) \<noteq> 1" by (simp add: s1)
  show ?thesis
    using resolveSAN_null_after_filter [OF h1 h2 h3 h4 h5 h6 h7] h1 h4 h5 s0 s1 by simp
qed

text \<open>
  C3 as stated fails: in the initial position \<^verbatim>\<open>Nbf3\<close> has the single candidate g1
  (square 6, mask 64); the mask of file b leaves no candidate, and the text resolves
  to g1-f3 all the same.
\<close>

theorem over_disambiguated_resolves:
  "parseSAN ''Nbf3'' =
     Some \<lparr>piece = Some CHR ''N'', targetIndex = 21, disambFile = Some CHR ''b'',
           disambRank = None, san_promotion = None, san_castle = None\<rparr>
   \<and> candidates reset
        \<lparr>piece = Some CHR ''N'', targetIndex = 21, disambFile = Some CHR ''b'',
         disambRank = None, san_promotion = None, san_castle = None\<rparr> = Inr 64
   \<and> applyDisamb 64 (Some CHR ''b'') None = Inr 0
   \<and> squaresOf 0 = []
   \<and> resolveSAN reset ''Nbf3'' = Inr (Some (plainMove 6 21))"
  by code_simp

section \<open>The resolver never throws\<close>

lemma is_file_range: "is_file c \<Longrightarrow> 0 \<le> int (of_char c) - 97 \<and> int (of_char c) - 97 < 8"
  by (auto simp: is_file_def)

lemma is_rank_range: "is_rank c \<Longrightarrow> 0 \<le> int (of_char c) - 48 - 1 \<and> int (of_char c) - 48 - 1 < 8"
  by (auto simp: is_rank_def)

lemma squareToIndex_range:
  assumes "is_file (t ! 0)" "is_rank (t ! 1)"
  shows "0 \<le> squareToIndex t \<and> squareToIndex t < 64"
  using is_file_range [OF assms(1)] is_rank_range [OF assms(2)]
  by (simp add: squareToIndex_def Let_def)

lemma match_targetPromo_square:
  assumes "match_targetPromo s = Some (t, pr)"
  shows "is_file (t ! 0) \<and> is_rank (t ! 1)"
  using assms by (auto simp: match_targetPromo_def Let_def split: if_splits)

lemma disambiguation_rank:
  assumes "snd (disambiguation rest) = Some d"
  shows "is_rank d"
  using assms by (auto simp: disambiguation_def Let_def split: if_splits)

lemma parseSAN_castle:
  assumes "parseSAN san = Some p" and "trim san = ''O-O'' \<or> trim san = ''O-O-O''"
  shows "truthy (san_castle p)" and "disambRank p = None"
  using assms by (auto simp: parseSAN_def Let_def truthy_def)

lemma parseSAN_fields:
  assumes "parseSAN san = Some p" and "\<not> (trim san = ''O-O'' \<or> trim san = ''O-O-O'')"
  shows "\<exists>t pr. match_targetPromo (trim san) = Some (t, pr) \<and> targetIndex p = squareToIndex t"
    and "\<exists>rest. disambRank p = snd (disambiguation rest)"
proof -
  obtain t pr where m: "match_targetPromo (trim san) = Some (t, pr)"
    using assms by (cases "match_targetPromo (trim san)") (auto simp: parseSAN_def Let_def)
  have "targetIndex p = squareToIndex t"
    using assms m by (auto simp: parseSAN_def Let_def split_beta)
  then show "\<exists>t pr. match_targetPromo (trim san) = Some (t, pr) \<and> targetIndex p = squareToIndex t"
    using m by blast
  show "\<exists>rest. disambRank p = snd (disambiguation rest)"
    using assms m by (auto simp: parseSAN_def Let_def split_beta)
qed

lemma parseSAN_target:
  assumes "parseSAN san = Some p" "\<not> truthy (san_castle p)"
  shows "0 \<le> targetIndex p \<and> targetIndex p < 64"
proof (cases "trim san = ''O-O'' \<or> trim san = ''O-O-O''")
  case True
  then show ?thesis using parseSAN_castle(1) [OF assms(1)] assms(2) by simp
next
  case False
  from parseSAN_fields(1) [OF assms(1) False] obtain t pr
    where "match_targetPromo (trim san) = Some (t, pr)" "targetIndex p = squareToIndex t"
    by blast
  then show ?thesis
    using squareToIndex_range match_targetPromo_square by simp
qed

lemma parseSAN_rank:
  assumes "parseSAN san = Some p" "disambRank p = Some d"
  shows "is_rank d"
proof (cases "trim san = ''O-O'' \<or> trim san = ''O-O-O''")
  case True
  then show ?thesis using parseSAN_castle(2) [OF assms(1)] assms(2) by simp
next
  case False
  from parseSAN_fields(2) [OF assms(1) False] obtain rest
    where "disambRank p = snd (disambiguation rest)" by blast
  then show ?thesis
    using assms(2) disambiguation_rank by simp
qed

lemma candidates_Inr:
  assumes "0 \<le> targetIndex p" "targetIndex p < 64"
  shows "\<exists>c. candidates pos p = Inr c"
  using assms
  by (simp add: candidates_def Let_def tableAnd_def kingAttacks_def knightAttacks_def
      split: option.splits)

lemma applyDisamb_Inr:
  assumes "\<forall>d. dR = Some d \<longrightarrow> is_rank d"
  shows "\<exists>bb. applyDisamb c dF dR = Inr bb"
  using assms
  by (auto simp: applyDisamb_def Let_def parseInt_char_def is_rank_def split: option.splits)

lemma chooseOrigin_Inr:
  assumes "\<forall>d. dR = Some d \<longrightarrow> is_rank d"
  shows "\<exists>r. chooseOrigin c dF dR = Inr r"
proof -
  obtain bb where "applyDisamb c dF dR = Inr bb"
    using applyDisamb_Inr [OF assms] by blast
  then show ?thesis
    by (simp add: chooseOrigin_def filterDisamb_def split: prod.splits)
qed

text \<open>
  C7. For every position and every text \<^verbatim>\<open>resolveSAN\<close> returns a move object or
  \<^verbatim>\<open>null\<close>; none of its expressions throws: the destination matched by the pattern
  is a square of the board, so the table entries exist, and a rank fragment is a digit.
  A pawn origin off the board needs no guard: \<^verbatim>\<open>bit\<close> of a negative index is \<open>0n\<close>.
\<close>

theorem resolveSAN_total: "\<exists>r. resolveSAN pos san = Inr r"
proof (cases "parseSAN san")
  case None
  then show ?thesis by (simp add: resolveSAN_def)
next
  case (Some p)
  show ?thesis
  proof (cases "truthy (san_castle p)")
    case True
    then show ?thesis using Some by (simp add: resolveSAN_def Let_def)
  next
    case False
    obtain c where c: "candidates pos p = Inr c"
      using candidates_Inr parseSAN_target [OF Some False] by blast
    obtain r where r: "chooseOrigin c (disambFile p) (disambRank p) = Inr r"
      using chooseOrigin_Inr [of "disambRank p"] parseSAN_rank [OF Some] by blast
    show ?thesis
      using Some False c r by (simp add: resolveSAN_def Let_def)
  qed
qed

section \<open>Promotion to an unrecognised piece\<close>

lemma promote_knight:
  assumes "truthy (promotion m)" "promotion m \<noteq> Some ''q''" "promotion m \<noteq> Some ''r''"
    "promotion m \<noteq> Some ''b''"
  shows "of_color (pawns (promote p m)) (sideToMove p)
           = of_color (pawns p) (sideToMove p) AND NOT (bit_sq (to_sq m))"
    and "of_color (knights (promote p m)) (sideToMove p)
           = of_color (knights p) (sideToMove p) OR bit_sq (to_sq m)"
  using assms by (simp_all add: promote_def Let_def)

lemma cleared_bit: "(x AND NOT b) AND b = (0::int)"
  by (simp add: bit_eq_iff bit_simps)

lemma set_bit: "(x OR b) AND b = (b::int)"
  by (auto simp: bit_eq_iff bit_simps)

text \<open>
  C10 as the code has it: for every move object that is not a castle and whose
  \<^verbatim>\<open>promotion\<close> is a non-empty string other than \<^verbatim>\<open>q\<close>, \<^verbatim>\<open>r\<close> and \<^verbatim>\<open>b\<close> (the
  capital \<^verbatim>\<open>Q\<close> included), \<^verbatim>\<open>makeMove\<close> clears the bit of the destination
  (\<^verbatim>\<open>toBB\<close>) in the pawns of the moving side and sets it in its knights.
\<close>

theorem promotion_fallback_knight:
  assumes "\<not> truthy (castle m)" and "truthy (promotion m)"
    and "promotion m \<noteq> Some ''q''" and "promotion m \<noteq> Some ''r''"
    and "promotion m \<noteq> Some ''b''"
  shows "of_color (pawns (makeMove p m)) (sideToMove p) AND bit_sq (to_sq m) = 0
       \<and> of_color (knights (makeMove p m)) (sideToMove p) AND bit_sq (to_sq m)
           = bit_sq (to_sq m)"
proof -
  define p2 where
    "p2 = snd (relocate (removeCaptured p m) (bit_sq (from_sq m)) (bit_sq (to_sq m)))"
  have side: "sideToMove p2 = sideToMove p"
    by (simp add: p2_def)
  have pw: "pawns (makeMove p m) = pawns (promote p2 m)"
    and kn: "knights (makeMove p m) = knights (promote p2 m)"
    using assms(1) by (simp_all add: makeMove_def Let_def split_beta p2_def)
  have "of_color (pawns (promote p2 m)) (sideToMove p2) AND bit_sq (to_sq m) = 0"
    using assms(2-5) by (simp add: promote_knight cleared_bit)
  moreover have "of_color (knights (promote p2 m)) (sideToMove p2) AND bit_sq (to_sq m)
      = bit_sq (to_sq m)"
    using assms(2-5) by (simp add: promote_knight set_bit)
  ultimately show ?thesis
    by (simp add: pw kn side)
qed

text \<open>
  The pawn on b2 (square 9) promoted on b1 (square 1, mask 2) with the capital letter:
  a black knight stands on b1 and no black pawn.
\<close>

theorem promotion_fallback_knight_witness:
  "sideToMove before_promotion = BLACK
   \<and> of_color (pawns before_promotion) BLACK AND bit_sq 9 = bit_sq 9
   \<and> bit_sq 1 = 2
   \<and> of_color (pawns (makeMove before_promotion
          \<lparr>from_sq = 9, to_sq = 1, promotion = Some ''Q'', castle = None, enpassant = False\<rparr>))
        BLACK AND 2 = 0
   \<and> of_color (knights (makeMove before_promotion
          \<lparr>from_sq = 9, to_sq = 1, promotion = Some ''Q'', castle = None, enpassant = False\<rparr>))
        BLACK AND 2 = 2"
proof -
  let ?m = "\<lparr>from_sq = 9, to_sq = 1, promotion = Some ''Q'', castle = None, enpassant = False\<rparr>"
  have s: "sideToMove before_promotion = BLACK" by code_simp
  have pw: "of_color (pawns before_promotion) BLACK AND bit_sq 9 = bit_sq 9" by code_simp
  have b: "bit_sq 1 = 2" by code_simp
  have "of_color (pawns (makeMove before_promotion ?m)) (sideToMove before_promotion)
          AND bit_sq (to_sq ?m) = 0
        \<and> of_color (knights (makeMove before_promotion ?m)) (sideToMove before_promotion)
          AND bit_sq (to_sq ?m) = bit_sq (to_sq ?m)"
    by (rule promotion_fallback_knight) (simp_all add: truthy_def)
  then show ?thesis
    using s pw b by simp
qed

text \<open>
  C10 as stated fails on a castle: \<^verbatim>\<open>makeMove\<close> returns from the castle branch before
  the promotion step. The move object \<^verbatim>\<open>{ from: 4, to: 2, castle: 'Q', promotion: 'n' }\<close>
  in the initial position puts no white knight on c1 (square 2, mask 4).
\<close>

theorem castle_ignores_promotion:
  "promotion \<lparr>from_sq = 4, to_sq = 2, promotion = Some ''n'', castle = Some ''Q'',
              enpassant = False\<rparr> = Some ''n''
   \<and> bit_sq 2 = 4
   \<and> of_color (knights (makeMove reset
          \<lparr>from_sq = 4, to_sq = 2, promotion = Some ''n'', castle = Some ''Q'',
           enpassant = False\<rparr>)) WHITE AND bit_sq 2 = 0"
  by code_simp

section \<open>Export to FEN, import, and the Zobrist key\<close>

lemma of_char_digit: "k < 10 \<Longrightarrow> of_char (char_of (48 + k :: nat)) = (48 + k :: nat)"
  by simp

lemma digits_nonempty: "digits n \<noteq> []"
  by (subst digits.simps) simp

lemma digits_are_digits: "c \<in> set (digits n) \<Longrightarrow> is_digit c"
proof (induction n rule: digits.induct)
  case (1 n)
  show ?case
  proof (cases "n < 10")
    case True
    then show ?thesis
      using "1.prems" by (subst (asm) digits.simps) (auto simp: is_digit_def)
  next
    case False
    have "n mod 10 < 10" by simp
    then have d: "is_digit (char_of (48 + n mod 10))"
      unfolding is_digit_def by (simp only: of_char_digit) simp
    from False "1.prems" have "c \<in> set (digits (n div 10)) \<or> c = char_of (48 + n mod 10)"
      by (subst (asm) digits.simps) auto
    then show ?thesis
      using "1.IH" [OF False] d by auto
  qed
qed

lemma is_digit_no_ws: "is_digit c \<Longrightarrow> \<not> is_ws c"
  by (auto simp: is_digit_def is_ws_def)

lemma numStr_nonempty: "numStr i \<noteq> []"
  by (simp add: numStr_def digits_nonempty)

lemma numStr_no_ws: "no_ws (numStr i)"
  by (auto simp: numStr_def no_ws_def is_ws_def dest!: digits_are_digits is_digit_no_ws)

lemma numStr_small: "0 \<le> n \<Longrightarrow> n < 10 \<Longrightarrow> numStr n = [char_of (48 + nat n)]"
  by (simp add: numStr_def digits.simps)

lemma split_ws_nonempty: "split_ws s \<noteq> []"
  by (induction s) (auto split: list.splits)

lemma split_ws_single: "no_ws a \<Longrightarrow> split_ws a = [a]"
  by (induction a) (auto simp: no_ws_def)

lemma split_ws_append:
  assumes "no_ws a" "b \<noteq> []" "\<not> is_ws (hd b)"
  shows "split_ws (a @ CHR '' '' # b) = a # split_ws b"
  using assms
proof (induction a)
  case Nil
  then show ?case by (simp add: is_ws_def)
next
  case (Cons c a)
  then show ?case by (simp add: no_ws_def)
qed

lemma trim_id:
  assumes "s \<noteq> []" "\<not> is_ws (hd s)" "\<not> is_ws (last s)"
  shows "trim s = s"
proof -
  have a: "dropWhile is_ws s = s"
    using assms(1,2) by (cases s) auto
  have "rev s \<noteq> []" "\<not> is_ws (hd (rev s))"
    using assms(1,3) by (simp_all add: hd_rev)
  then have "dropWhile is_ws (rev s) = rev s"
    by (cases "rev s") auto
  then show ?thesis
    by (simp add: trim_def a)
qed

lemma split_on_single: "sep \<notin> set a \<Longrightarrow> split_on sep a = [a]"
  by (induction a) auto

lemma split_on_append:
  "sep \<notin> set a \<Longrightarrow> split_on sep (a @ sep # b) = a # split_on sep b"
  by (induction a) auto


lemma pieceAt_chars: "pieceAt p b = Some c \<Longrightarrow> c \<in> set pieceChars"
  by (auto simp: pieceAt_def check_def orElse_def pieceChars_def split: if_splits option.splits)

lemma pieceChars_not_digit: "c \<in> set pieceChars \<Longrightarrow> \<not> is_digit c \<and> \<not> is_rank c"
  by (auto simp: pieceChars_def is_digit_def is_rank_def)

lemma pieceChars_plain: "c \<in> set pieceChars \<Longrightarrow> \<not> is_ws c \<and> c \<noteq> CHR ''/''"
  by (auto simp: pieceChars_def is_ws_def)

lemma is_digit_plain: "is_digit c \<Longrightarrow> \<not> is_ws c \<and> c \<noteq> CHR ''/''"
  by (auto simp: is_digit_def is_ws_def)

lemma numStr_digits: "0 \<le> i \<Longrightarrow> c \<in> set (numStr i) \<Longrightarrow> is_digit c"
  by (auto simp: numStr_def dest: digits_are_digits)

lemma fenCells_chars:
  assumes "\<forall>c. Some c \<in> set cells \<longrightarrow> c \<in> set pieceChars" "0 \<le> e"
    and "x \<in> set (fenCells cells e)"
  shows "x \<in> set pieceChars \<or> is_digit x"
  using assms
proof (induction cells e rule: fenCells.induct)
  case (1 emp)
  then show ?case by (auto dest: numStr_digits split: if_splits)
next
  case (2 cs emp)
  then show ?case by auto
next
  case (3 pc cs emp)
  then show ?case by (auto dest: numStr_digits split: if_splits)
qed

lemma fenRank_chars: "x \<in> set (fenRank p r) \<Longrightarrow> x \<in> set pieceChars \<or> is_digit x"
  unfolding fenRank_def
  by (rule fenCells_chars [where e = 0]) (auto dest: pieceAt_chars [OF sym])

lemma fenRank_plain: "x \<in> set (fenRank p r) \<Longrightarrow> \<not> is_ws x \<and> x \<noteq> CHR ''/''"
  using fenRank_chars pieceChars_plain is_digit_plain by blast

lemma rev_ranks: "rev [0..7::int] = [7, 6, 5, 4, 3, 2, 1, 0]"
  by code_simp

lemma fenPlacement_unfold:
  "fenPlacement p = fenRank p 7 @ CHR ''/'' # fenRank p 6 @ CHR ''/'' # fenRank p 5
     @ CHR ''/'' # fenRank p 4 @ CHR ''/'' # fenRank p 3 @ CHR ''/'' # fenRank p 2
     @ CHR ''/'' # fenRank p 1 @ CHR ''/'' # fenRank p 0"
  by (simp add: fenPlacement_def rev_ranks)

lemma slash_notin: "CHR ''/'' \<notin> set (fenRank p r)"
  using fenRank_plain by blast

lemma split_fenPlacement:
  "split_on (CHR ''/'') (fenPlacement p) =
     [fenRank p 7, fenRank p 6, fenRank p 5, fenRank p 4, fenRank p 3, fenRank p 2,
      fenRank p 1, fenRank p 0]"
  by (simp add: fenPlacement_unfold split_on_append split_on_single slash_notin)

lemma fenPlacement_nonempty: "fenPlacement p \<noteq> []"
  by (simp add: fenPlacement_unfold)

lemma fenPlacement_no_ws: "no_ws (fenPlacement p)"
  using fenRank_plain by (auto simp: no_ws_def fenPlacement_unfold is_ws_def)

lemma split_ws_append2:
  assumes "no_ws a" "b \<noteq> []" "no_ws b"
  shows "split_ws (a @ CHR '' '' # b @ rest) = a # split_ws (b @ rest)"
proof -
  have "\<not> is_ws (hd (b @ rest))"
    using assms(2,3) by (cases b) (auto simp: no_ws_def)
  then show ?thesis
    using assms(1,2) by (intro split_ws_append) auto
qed

lemma fenEnPassant_ok:
  assumes "ep = - 1 \<or> 0 \<le> ep \<and> ep < 64"
  shows "fenEnPassant ep \<noteq> []" and "no_ws (fenEnPassant ep)"
proof -
  show "fenEnPassant ep \<noteq> []" by (simp add: fenEnPassant_def)
  show "no_ws (fenEnPassant ep)"
  proof (cases "ep = - 1")
    case True
    then show ?thesis by (simp add: fenEnPassant_def no_ws_def is_ws_def)
  next
    case False
    then have r: "0 \<le> ep" "ep < 64" using assms by auto
    then have m: "js_rem ep 8 = ep mod 8" by (simp add: js_rem_def sgn_if)
    have "0 \<le> ep mod 8" "ep mod 8 < 8" by simp_all
    then obtain k where k: "nat (97 + ep mod 8) = 97 + k" "k < 8"
      by (metis nat_add_distrib nat_less_iff nat_numeral zero_le_numeral int_nat_eq)
    then have "of_char (char_of (nat (97 + ep mod 8))) = (97 + k :: nat)" by simp
    then have "\<not> is_ws (char_of (nat (97 + ep mod 8)))"
      using k(2) by (simp add: is_ws_def)
    moreover have "no_ws (numStr (ep div 8 + 1))" by (rule numStr_no_ws)
    ultimately show ?thesis
      using False by (simp add: fenEnPassant_def no_ws_def m)
  qed
qed

lemma castling_field_ok:
  assumes "set cs \<subseteq> set ''KQkq''"
  shows "no_ws (if cs = [] then ''-'' else cs)" and "(if cs = [] then ''-'' else cs) \<noteq> []"
  using assms by (auto simp: no_ws_def is_ws_def)

lemma toFEN_tokens:
  assumes "wellFormed p"
  shows "split_ws (trim (toFEN p)) =
     [fenPlacement p, if sideToMove p = WHITE then ''w'' else ''b'',
      if castling p = [] then ''-'' else castling p, fenEnPassant (enPassant p),
      numStr (halfmove p), numStr (fullmove p)]"
proof -
  let ?side = "if sideToMove p = WHITE then ''w'' else ''b''"
  let ?cast = "if castling p = [] then ''-'' else castling p"
  let ?ep = "fenEnPassant (enPassant p)"
  have side: "no_ws ?side" "?side \<noteq> []" by (simp_all add: no_ws_def is_ws_def)
  have cast: "no_ws ?cast" "?cast \<noteq> []"
    using assms castling_field_ok [of "castling p"] by (simp_all add: wellFormed_def)
  have ep: "no_ws ?ep" "?ep \<noteq> []"
    using assms fenEnPassant_ok [of "enPassant p"] by (simp_all add: wellFormed_def)
  have t: "toFEN p = fenPlacement p @ CHR '' '' # ?side @ (CHR '' '' # ?cast @ (CHR '' '' # ?ep
      @ (CHR '' '' # numStr (halfmove p) @ (CHR '' '' # numStr (fullmove p)))))"
    by (simp add: toFEN_def)
  have hf: "\<not> is_ws (hd (numStr (fullmove p)))"
    using numStr_nonempty [of "fullmove p"] numStr_no_ws [of "fullmove p"]
    by (cases "numStr (fullmove p)") (auto simp: no_ws_def)
  have h: "\<not> is_ws (hd (toFEN p))"
    using fenPlacement_nonempty [of p] fenPlacement_no_ws [of p]
    by (cases "fenPlacement p") (auto simp: toFEN_def no_ws_def)
  have l: "\<not> is_ws (last (toFEN p))"
    using numStr_nonempty [of "fullmove p"] numStr_no_ws [of "fullmove p"]
    by (simp add: toFEN_def no_ws_def)
  have "trim (toFEN p) = toFEN p"
    by (rule trim_id) (use h l in \<open>simp_all add: toFEN_def\<close>)
  moreover have "split_ws (toFEN p) = [fenPlacement p, ?side, ?cast, ?ep,
      numStr (halfmove p), numStr (fullmove p)]"
    unfolding t
    by (simp only: split_ws_append2 [OF fenPlacement_no_ws side(2,1)]
        split_ws_append2 [OF side(1) cast(2,1)] split_ws_append2 [OF cast(1) ep(2,1)]
        split_ws_append2 [OF ep(1) numStr_nonempty numStr_no_ws]
        split_ws_append [OF numStr_no_ws numStr_nonempty hf]
        split_ws_single [OF numStr_no_ws])
  ultimately show ?thesis by simp
qed


lemma numStr_rank:
  assumes "1 \<le> e" "e \<le> 8"
  shows "\<exists>d. numStr e = [d] \<and> is_rank d \<and> int (of_char d) - 48 = e"
proof -
  have n: "numStr e = [char_of (48 + nat e)]"
    using assms by (simp add: numStr_small)
  have "nat e < 10" using assms by simp
  then have o: "of_char (char_of (48 + nat e)) = (48 + nat e :: nat)"
    by (rule of_char_digit)
  show ?thesis
    using assms by (auto simp: n is_rank_def o)
qed

lemma loadRank_fenCells:
  assumes "\<forall>c. Some c \<in> set cells \<longrightarrow> c \<in> set pieceChars"
    and "0 \<le> e" and "0 \<le> f" and "f + e + int (length cells) \<le> 8"
  shows "loadRank q r (fenCells cells e) f = placeAll q r (f + e) cells"
  using assms
proof (induction cells e arbitrary: q f rule: fenCells.induct)
  case (1 emp)
  show ?case
  proof (cases "emp = 0")
    case True
    then show ?thesis by simp
  next
    case False
    then obtain d where "numStr emp = [d]" "is_rank d"
      using numStr_rank [of emp] 1 by auto
    then show ?thesis using False 1 by simp
  qed
next
  case (2 cs emp)
  then have "loadRank q r (fenCells cs (emp + 1)) f = placeAll q r (f + (emp + 1)) cs"
    by (intro "2.IH") auto
  then show ?case by (simp add: add.assoc)
next
  case (3 pc cs emp)
  have pc: "\<not> is_rank pc"
    using "3.prems"(1) pieceChars_not_digit by auto
  have ih: "loadRank q' r (fenCells cs 0) (f + emp + 1) = placeAll q' r (f + emp + 1) cs" for q'
    using "3.IH" [where q = q' and f = "f + emp + 1"] "3.prems" by auto
  show ?case
  proof (cases "emp = 0")
    case True
    then show ?thesis using pc ih "3.prems" by simp
  next
    case False
    then obtain d where d: "numStr emp = [d]" "is_rank d" "int (of_char d) - 48 = emp"
      using numStr_rank [of emp] "3.prems" by auto
    then show ?thesis using False pc ih "3.prems" by simp
  qed
qed

lemma place_setOf:
  assumes "c \<in> set pieceChars"
  shows "setOf (place q ch b) c = (if ch = c then setOf q c OR b else setOf q c)"
  using assms by (auto simp: pieceChars_def place_def setOf_def)

lemma placeAll_bit:
  assumes "c \<in> set pieceChars" "0 \<le> sq" "0 \<le> r * 8 + f"
  shows "bit (setOf (placeAll q r f cells) c) (nat sq) \<longleftrightarrow>
     bit (setOf q c) (nat sq) \<or> (\<exists>i<length cells. cells ! i = Some c \<and> sq = r * 8 + f + int i)"
  using assms(3)
proof (induction cells arbitrary: q f)
  case Nil
  then show ?case by simp
next
  case (Cons x cs)
  have ih: "bit (setOf (placeAll q' r (f + 1) cs) c) (nat sq) \<longleftrightarrow>
     bit (setOf q' c) (nat sq) \<or> (\<exists>i<length cs. cs ! i = Some c \<and> sq = r * 8 + f + 1 + int i)" for q'
    using Cons.IH [where f = "f + 1" and q = q'] Cons.prems by (simp add: add.assoc)
  show ?case
  proof (cases x)
    case None
    then show ?thesis
      by (simp add: ih Ex_less_Suc2 add.assoc)
  next
    case (Some c')
    have b: "bit_sq (r * 8 + f) = push_bit (nat (r * 8 + f)) 1"
      using Cons.prems by (simp add: bit_sq_def shl_def)
    have "bit (setOf (place q c' (bit_sq (r * 8 + f))) c) (nat sq) \<longleftrightarrow>
        bit (setOf q c) (nat sq) \<or> (c' = c \<and> sq = r * 8 + f)"
      using assms(1,2) Cons.prems by (auto simp: place_setOf b bit_simps)
    then show ?thesis
      using Some by (auto simp: ih Ex_less_Suc2 add.assoc)
  qed
qed


lemma rankCells_length: "length (rankCells p r) = 8"
  by (simp add: rankCells_def)

lemma rankCells_nth: "i < 8 \<Longrightarrow> rankCells p r ! i = pieceAt p (bit_sq (r * 8 + int i))"
  by (simp add: rankCells_def)

lemma rankCells_chars: "Some c \<in> set (rankCells p r) \<Longrightarrow> c \<in> set pieceChars"
  by (auto simp: rankCells_def dest: pieceAt_chars [OF sym])

lemma loadRank_fenRank: "loadRank q r (fenRank p r) 0 = placeAll q r 0 (rankCells p r)"
proof -
  have "loadRank q r (fenCells (rankCells p r) 0) 0 = placeAll q r (0 + 0) (rankCells p r)"
    by (rule loadRank_fenCells) (auto simp: rankCells_length dest: rankCells_chars)
  then show ?thesis
    by (simp add: fenRank_def rankCells_def)
qed

lemma nth_rank:
  assumes "0 \<le> x" "x \<le> 7"
  shows "[g 7, g 6, g 5, g 4, g 3, g 2, g 1, g (0::int)] ! nat (7 - x) = g x"
proof -
  have "x = 0 \<or> x = 1 \<or> x = 2 \<or> x = 3 \<or> x = 4 \<or> x = 5 \<or> x = 6 \<or> x = 7"
    using assms by arith
  then show ?thesis
    by (elim disjE) (simp_all add: eval_nat_numeral)
qed

lemma loadPlacement_fen:
  "loadPlacement q (split_on (CHR ''/'') (fenPlacement p))
     = fold (\<lambda>r q. placeAll q r 0 (rankCells p r)) [0..7] q"
  unfolding loadPlacement_def split_fenPlacement
  by (rule fold_cong) (auto simp: nth_rank [where g = "fenRank p"] loadRank_fenRank)

lemma fold_placeAll_bit:
  assumes "c \<in> set pieceChars" "0 \<le> sq" "\<forall>r \<in> set rs. 0 \<le> r"
  shows "bit (setOf (fold (\<lambda>r q. placeAll q r 0 (rankCells p r)) rs q0) c) (nat sq) \<longleftrightarrow>
     bit (setOf q0 c) (nat sq)
     \<or> (\<exists>r \<in> set rs. \<exists>i<8. pieceAt p (bit_sq (r * 8 + int i)) = Some c \<and> sq = r * 8 + int i)"
  using assms(3)
proof (induction rs arbitrary: q0)
  case Nil
  then show ?case by simp
next
  case (Cons r rs)
  have r: "0 \<le> r * 8 + 0" using Cons.prems by simp
  have step: "bit (setOf (placeAll q0 r 0 (rankCells p r)) c) (nat sq) \<longleftrightarrow>
      bit (setOf q0 c) (nat sq)
      \<or> (\<exists>i<8. pieceAt p (bit_sq (r * 8 + int i)) = Some c \<and> sq = r * 8 + int i)"
    using placeAll_bit [OF assms(1,2) r, of q0 "rankCells p r"]
    by (auto simp: rankCells_length rankCells_nth)
  have "bit (setOf (fold (\<lambda>r q. placeAll q r 0 (rankCells p r)) rs
          (placeAll q0 r 0 (rankCells p r))) c) (nat sq) \<longleftrightarrow>
     bit (setOf (placeAll q0 r 0 (rankCells p r)) c) (nat sq)
     \<or> (\<exists>r \<in> set rs. \<exists>i<8. pieceAt p (bit_sq (r * 8 + int i)) = Some c \<and> sq = r * 8 + int i)"
    using Cons.IH Cons.prems by simp
  then show ?case
    using step by auto
qed

lemma loaded_bit:
  assumes "c \<in> set pieceChars" "0 \<le> sq" "sq < 64" "setOf q0 c = 0"
  shows "bit (setOf (fold (\<lambda>r q. placeAll q r 0 (rankCells p r)) [0..7] q0) c) (nat sq)
     \<longleftrightarrow> pieceAt p (bit_sq sq) = Some c"
proof -
  have "(\<exists>r \<in> set [0..7]. \<exists>i<8. pieceAt p (bit_sq (r * 8 + int i)) = Some c \<and> sq = r * 8 + int i)
      \<longleftrightarrow> pieceAt p (bit_sq sq) = Some c" (is "?L \<longleftrightarrow> ?R")
  proof
    assume ?L
    then show ?R by auto
  next
    assume R: ?R
    have a: "sq div 8 \<in> set [0..7]"
      using assms(2,3) by auto
    have b: "nat (sq mod 8) < 8" by simp
    have c: "sq = sq div 8 * 8 + int (nat (sq mod 8))"
      by simp
    from R c have "pieceAt p (bit_sq (sq div 8 * 8 + int (nat (sq mod 8)))) = Some c"
      by simp
    with a b c show ?L by blast
  qed
  then show ?thesis
    using fold_placeAll_bit [OF assms(1,2), where rs = "[0..7]" and ?q0.0 = q0 and p = p] assms(4)
    by simp
qed

lemma pieceAt_find: "pieceAt q b = List.find (\<lambda>c. setOf q c AND b \<noteq> 0) pieceChars"
  by (simp add: pieceAt_def check_def orElse_def pieceChars_def setOf_def)

lemma find_is_Some:
  assumes "x = None \<or> (\<exists>c \<in> set cs. x = Some c)"
  shows "List.find (\<lambda>c. x = Some c) cs = x"
  using assms by (induction cs) auto


lemma probe_pieceAt: "probe q b pieceSets = map_option ptOf (pieceAt q b)"
  by (simp add: pieceSets_def pieceAt_def check_def orElse_def ptOf_def)

lemma ranks_length: "length (split_on (CHR ''/'') (fenPlacement p)) = 8"
  by (simp add: split_fenPlacement)

lemma loadEnPassant_fen:
  assumes "ep = - 1 \<or> 0 \<le> ep \<and> ep < 64"
  shows "loadEnPassant (Some (fenEnPassant ep)) = ep"
proof (cases "ep = - 1")
  case True
  then show ?thesis by (simp add: loadEnPassant_def fenEnPassant_def)
next
  case False
  then have r: "0 \<le> ep" "ep < 64" using assms by auto
  then have m: "js_rem ep 8 = ep mod 8" by (simp add: js_rem_def sgn_if)
  have dv: "0 \<le> ep div 8" "ep div 8 < 8" using r by auto
  then have "1 \<le> ep div 8 + 1" "ep div 8 + 1 \<le> 8" by auto
  then obtain d where d: "numStr (ep div 8 + 1) = [d]" "is_rank d"
      "int (of_char d) - 48 = ep div 8 + 1"
    using numStr_rank by blast
  have pd: "parseInt_char d = Some (ep div 8 + 1)"
    using d(2,3) by (auto simp: parseInt_char_def is_rank_def)
  have "0 \<le> ep mod 8" "ep mod 8 < 8" by simp_all
  then obtain k where k: "nat (97 + ep mod 8) = 97 + k" "k < 8" "int k = ep mod 8"
    by (metis nat_add_distrib nat_less_iff nat_numeral zero_le_numeral int_nat_eq)
  then have f: "int (of_char (char_of (nat (97 + ep mod 8)))) - 97 = ep mod 8" by simp
  show ?thesis
    using False dv by (simp add: loadEnPassant_def fenEnPassant_def m d(1) pd f)
qed

lemma loadFromFEN_toFEN_eq:
  assumes "wellFormed p"
  shows "loadFromFEN q (toFEN p) =
     (fold (\<lambda>r q. placeAll q r 0 (rankCells p r)) [0..7]
        (q\<lparr>pawns := (0, 0), knights := (0, 0), bishops := (0, 0),
           rooks := (0, 0), queens := (0, 0), kings := (0, 0)\<rparr>))
     \<lparr>sideToMove := sideToMove p, castling := castling p, enPassant := enPassant p,
      halfmove := parseIntOr (Some (numStr (halfmove p))) 0,
      fullmove := parseIntOr (Some (numStr (fullmove p))) 1\<rparr>"
proof -
  have ne: "toFEN p \<noteq> []" by (simp add: toFEN_def)
  have c: "set (castling p) \<subseteq> set ''KQkq''"
    and e: "enPassant p = - 1 \<or> 0 \<le> enPassant p \<and> enPassant p < 64"
    using assms by (simp_all add: wellFormed_def)
  have cast: "(if (if castling p = [] then ''-'' else castling p) \<noteq> []
         \<and> (if castling p = [] then ''-'' else castling p) \<noteq> ''-''
       then (if castling p = [] then ''-'' else castling p) else []) = castling p"
    using c by auto
  have side: "(if (if sideToMove p = WHITE then ''w'' else ''b'') = ''b'' then BLACK else WHITE)
      = sideToMove p"
    by (cases "sideToMove p") simp_all
  show ?thesis
    unfolding loadFromFEN_def Let_def toFEN_tokens [OF assms]
    using ne by (simp add: fenPlacement_nonempty ranks_length loadPlacement_fen nth_opt_def
        cast side loadEnPassant_fen [OF e])
qed

lemma pieceAt_metadata [simp]:
  "pieceAt (x\<lparr>sideToMove := a, castling := b', enPassant := c, halfmove := d, fullmove := e\<rparr>) b
     = pieceAt x b"
  by (simp add: pieceAt_def)

lemma setOf_cleared:
  "setOf (q\<lparr>pawns := (0, 0), knights := (0, 0), bishops := (0, 0),
           rooks := (0, 0), queens := (0, 0), kings := (0, 0)\<rparr>) c = 0"
  by (simp add: setOf_def)

lemma pieceAt_loaded:
  assumes "wellFormed p" "0 \<le> sq" "sq < 64"
  shows "pieceAt (loadFromFEN q (toFEN p)) (bit_sq sq) = pieceAt p (bit_sq sq)"
proof -
  let ?p0 = "q\<lparr>pawns := (0, 0), knights := (0, 0), bishops := (0, 0),
           rooks := (0, 0), queens := (0, 0), kings := (0, 0)\<rparr>"
  let ?p1 = "fold (\<lambda>r q. placeAll q r 0 (rankCells p r)) [0..7] ?p0"
  have "pieceAt ?p1 (bit_sq sq) = List.find (\<lambda>c. setOf ?p1 c AND bit_sq sq \<noteq> 0) pieceChars"
    by (rule pieceAt_find)
  also have "\<dots> = List.find (\<lambda>c. pieceAt p (bit_sq sq) = Some c) pieceChars"
    by (rule find_cong [OF refl])
      (simp add: and_bit_sq [OF assms(2)] loaded_bit [OF _ assms(2,3) setOf_cleared])
  also have "\<dots> = pieceAt p (bit_sq sq)"
    by (rule find_is_Some) (use pieceAt_chars in \<open>cases "pieceAt p (bit_sq sq)"; auto\<close>)
  finally show ?thesis
    by (simp add: loadFromFEN_toFEN_eq [OF assms(1)])
qed


lemma castlingKey_fold:
  "castlingKey cs key =
     (if \<forall>c \<in> set cs. castlingIndex c \<noteq> None
      then Inr (fold (\<lambda>c k. k XOR ZOBRIST_CASTLE (the (castlingIndex c))) cs key)
      else Inl TypeError)"
  by (induction cs arbitrary: key) (auto split: option.splits)

lemma castlingKey_mset:
  assumes "mset cs = mset ds"
  shows "castlingKey cs key = castlingKey ds key"
proof -
  have s: "set cs = set ds"
    using assms by (rule mset_eq_setD)
  have "fold (\<lambda>c k. k XOR ZOBRIST_CASTLE (the (castlingIndex c))) cs
      = fold (\<lambda>c k. k XOR ZOBRIST_CASTLE (the (castlingIndex c))) ds"
    by (rule fold_multiset_equiv [OF _ assms]) (auto simp: fun_eq_iff ac_simps)
  then show ?thesis
    by (simp add: castlingKey_fold s)
qed

lemma getZobristKey_cong:
  assumes "\<forall>sq \<in> set squares. probe p (bit_sq sq) pieceSets = probe q (bit_sq sq) pieceSets"
    and "sideToMove p = sideToMove q" and "mset (castling p) = mset (castling q)"
    and "enPassant p = enPassant q"
  shows "getZobristKey p = getZobristKey q"
proof -
  have "fold (pieceKey p) squares 0 = fold (pieceKey q) squares 0"
    by (rule fold_cong) (use assms(1) in \<open>auto simp: pieceKey_def fun_eq_iff\<close>)
  then show ?thesis
    unfolding getZobristKey_def Let_def assms(2) assms(4) castlingKey_mset [OF assms(3)]
    by simp
qed

lemma castlingIndex_valid: "c \<in> set ''KQkq'' \<Longrightarrow> castlingIndex c \<noteq> None"
  by (auto simp: castlingIndex_def)

lemma getZobristKey_Inr:
  assumes "set (castling p) \<subseteq> set ''KQkq''"
  shows "\<exists>k. getZobristKey p = Inr k"
proof -
  have "\<forall>c \<in> set (castling p). castlingIndex c \<noteq> None"
    using assms castlingIndex_valid by blast
  then show ?thesis
    by (simp add: getZobristKey_def Let_def castlingKey_fold)
qed

lemma removeSideRights_subset: "set (removeSideRights side cs) \<subseteq> set cs"
  by (cases side) (auto simp: removeSideRights_def)

lemma remove1_subset: "set cs \<subseteq> A \<Longrightarrow> set (remove1 x cs) \<subseteq> A"
  using set_remove1_subset by fastforce

lemma updateCastling_subset:
  assumes "set (castling p) \<subseteq> A"
  shows "set (castling (updateCastling p m b)) \<subseteq> A"
proof -
  have "set (removeSideRights (sideToMove p) (castling p)) \<subseteq> A"
    using assms removeSideRights_subset by blast
  then show ?thesis
    using assms by (auto simp: updateCastling_def Let_def intro!: remove1_subset)
qed

lemma wellFormed_makeMove:
  assumes "wellFormed p" "validSquares m"
  shows "wellFormed (makeMove p m)"
proof (cases "truthy (castle m)")
  case True
  have "set (removeSideRights (sideToMove p) (castling p)) \<subseteq> set ''KQkq''"
    using assms(1) removeSideRights_subset unfolding wellFormed_def by blast
  then show ?thesis
    using True assms(1) by (simp add: makeMove_def wellFormed_def castleMove_def Let_def)
next
  case False
  define p3 where "p3 = promote (snd (relocate (removeCaptured p m) (bit_sq (from_sq m))
      (bit_sq (to_sq m)))) m"
  define mp where "mp = fst (relocate (removeCaptured p m) (bit_sq (from_sq m)) (bit_sq (to_sq m)))"
  define mr where "mr = (of_color (rooks (removeCaptured p m)) (sideToMove p)
      AND bit_sq (from_sq m) \<noteq> 0)"
  have mm: "makeMove p m = finishMove (updateCastling (updateEnPassant p3 m mp) m mr)"
    using False by (simp add: makeMove_def Let_def split_beta p3_def mp_def mr_def)
  have c3: "castling (updateEnPassant p3 m mp) = castling p"
    by (simp add: p3_def)
  have "set (castling (makeMove p m)) \<subseteq> set ''KQkq''"
    unfolding mm using updateCastling_subset [of "updateEnPassant p3 m mp" "set ''KQkq''" m mr]
      assms(1) c3 by (simp add: wellFormed_def)
  moreover have "enPassant (makeMove p m) = - 1
      \<or> 0 \<le> enPassant (makeMove p m) \<and> enPassant (makeMove p m) < 64"
    unfolding mm using assms(2) by (auto simp: updateEnPassant_def validSquares_def)
  ultimately show ?thesis
    by (simp add: wellFormed_def)
qed

lemma wellFormed_reset: "wellFormed reset"
  by (simp add: wellFormed_def reset_def)

lemma wellFormed_play:
  assumes "wellFormed p" "\<forall>m \<in> set ms. validSquares m"
  shows "wellFormed (play p ms)"
  using assms unfolding play_def
  by (induction ms arbitrary: p) (simp_all add: wellFormed_makeMove)

lemma squares_range: "sq \<in> set squares \<Longrightarrow> 0 \<le> sq \<and> sq < 64"
  by (simp add: squares_def)

lemma hash_after_import:
  assumes "wellFormed p"
  shows "getZobristKey (loadFromFEN q (toFEN p)) = getZobristKey p"
proof (rule getZobristKey_cong)
  show "\<forall>sq \<in> set squares. probe (loadFromFEN q (toFEN p)) (bit_sq sq) pieceSets
      = probe p (bit_sq sq) pieceSets"
    using pieceAt_loaded [OF assms] squares_range by (simp add: probe_pieceAt)
qed (simp_all add: loadFromFEN_toFEN_eq [OF assms])

text \<open>
  C5. For every position reached from the initial one by move objects whose squares are
  on the board, the Zobrist key of the position imported from its FEN into a fresh
  engine is the key of the position itself (and both calls return a key).
\<close>

theorem fen_round_trip_hash:
  assumes "\<forall>m \<in> set ms. validSquares m"
  shows "\<exists>k. getZobristKey (play reset ms) = Inr k
       \<and> getZobristKey (loadFromFEN reset (toFEN (play reset ms))) = Inr k"
proof -
  have w: "wellFormed (play reset ms)"
    using wellFormed_reset assms by (rule wellFormed_play)
  then obtain k where "getZobristKey (play reset ms) = Inr k"
    using getZobristKey_Inr unfolding wellFormed_def by blast
  then show ?thesis
    using hash_after_import [OF w] by simp
qed

text \<open>
  The game 1. Nf3 Nf6 2. g3 g6 3. Bg2 d5 4. O-O: its FEN (with the en-passant square the
  castle left behind) imports to a position with the same key.
\<close>

theorem fen_round_trip_hash_witness:
  "toFEN (play reset castled_game)
     = ''rnbqkb1r/ppp1pp1p/5np1/3p4/8/5NP1/PPPPPPBP/RNBQ1RK1 b kq d6 0 4''
   \<and> (\<exists>k. getZobristKey (play reset castled_game) = Inr k
       \<and> getZobristKey (loadFromFEN reset (toFEN (play reset castled_game))) = Inr k)"
proof -
  have v: "\<forall>m \<in> set castled_game. validSquares m"
    by (simp add: castled_game_def validSquares_def plainMove_def)
  have f: "toFEN (play reset castled_game)
     = ''rnbqkb1r/ppp1pp1p/5np1/3p4/8/5NP1/PPPPPPBP/RNBQ1RK1 b kq d6 0 4''"
    by code_simp
  show ?thesis
    using fen_round_trip_hash [OF v] f by blast
qed

section \<open>Equal positions have equal keys\<close>

lemma fits64_xor:
  assumes "fits64 a" "fits64 b"
  shows "fits64 (a XOR b)"
proof -
  have "a XOR b < 2 ^ 64"
    by (rule XOR_upper) (use assms in \<open>simp_all add: fits64_def\<close>)
  moreover have "0 \<le> a XOR b"
    using assms by (simp add: fits64_def)
  ultimately show ?thesis
    unfolding fits64_def by blast
qed

lemma random64_range: "fits64 (snd (random64 s))"
proof -
  obtain s1 lo where a: "mulberry32 s = (s1, lo)" by (cases "mulberry32 s")
  obtain s2 hi where b: "mulberry32 s1 = (s2, hi)" by (cases "mulberry32 s1")
  have v: "snd (random64 s) = push_bit 32 (uint hi) OR uint lo"
    by (simp add: random64_def a b)
  have "uint hi < 2 ^ 32" using uint_lt2p [of hi] by simp
  then have h: "push_bit 32 (uint hi) < 2 ^ 64"
    by (simp add: push_bit_eq_mult)
  have "uint lo < 2 ^ 32" using uint_lt2p [of lo] by simp
  then have l: "uint lo < 2 ^ 64" by simp
  have "push_bit 32 (uint hi) OR uint lo < 2 ^ 64"
    by (rule OR_upper) (use h l in simp_all)
  then show ?thesis by (simp add: v fits64_def)
qed

lemma randoms_length: "length (randoms n s) = n"
  by (induction n arbitrary: s) (simp_all add: split_beta)

lemma randoms_range: "v \<in> set (randoms n s) \<Longrightarrow> fits64 v"
proof (induction n arbitrary: s)
  case 0
  then show ?case by simp
next
  case (Suc n)
  then show ?case
    using random64_range [of s] by (auto simp: split_beta)
qed

lemma zobristValues_range: "i < 781 \<Longrightarrow> fits64 (zobristValues ! i)"
  unfolding zobristValues_def
  by (rule randoms_range [of _ 781 "0x5eed"]) (simp add: randoms_length)

lemma probe_range: "probe p b pieceSets = Some pt \<Longrightarrow> 0 \<le> pt \<and> pt < 12"
  by (auto simp: pieceSets_def split: if_splits)

lemma pieceKey_range:
  assumes "0 \<le> sq" "sq < 64" "fits64 key"
  shows "fits64 (pieceKey p sq key)"
proof (cases "probe p (bit_sq sq) pieceSets")
  case None
  then show ?thesis using assms(3) by (simp add: pieceKey_def)
next
  case (Some pt)
  then have "0 \<le> pt" "pt < 12" using probe_range by auto
  then have "nat (sq * 12 + pt) < 781" using assms(1,2) by simp
  then have "fits64 (ZOBRIST_PIECES sq pt)"
    unfolding ZOBRIST_PIECES_def by (rule zobristValues_range)
  then show ?thesis
    using Some assms(3) by (simp add: pieceKey_def fits64_xor)
qed

lemma fold_pieceKey_range:
  assumes "\<forall>sq \<in> set sqs. 0 \<le> sq \<and> sq < 64" "fits64 key"
  shows "fits64 (fold (pieceKey p) sqs key)"
  using assms by (induction sqs arbitrary: key) (simp_all add: pieceKey_range)

lemma castlingIndex_range: "castlingIndex c = Some i \<Longrightarrow> 0 \<le> i \<and> i < 4"
  by (auto simp: castlingIndex_def split: if_splits)

lemma castlingKey_range:
  assumes "castlingKey cs key = Inr k" "fits64 key"
  shows "fits64 k"
  using assms
proof (induction cs arbitrary: key)
  case Nil
  then show ?case by simp
next
  case (Cons c cs)
  then obtain i where i: "castlingIndex c = Some i"
    by (cases "castlingIndex c") auto
  then have "nat (769 + i) < 781" using castlingIndex_range by fastforce
  then have "fits64 (ZOBRIST_CASTLE i)"
    unfolding ZOBRIST_CASTLE_def by (rule zobristValues_range)
  then show ?case
    using Cons i by (simp add: fits64_xor)
qed

lemma getZobristKey_range:
  assumes "getZobristKey p = Inr k"
  shows "fits64 k"
proof -
  have z: "fits64 0" by (simp add: fits64_def)
  have k1: "fits64 (fold (pieceKey p) squares 0)"
    by (rule fold_pieceKey_range) (simp_all add: squares_def z)
  have "fits64 ZOBRIST_SIDE"
    unfolding ZOBRIST_SIDE_def by (rule zobristValues_range) simp
  then have k2: "fits64 (if sideToMove p = BLACK then fold (pieceKey p) squares 0 XOR ZOBRIST_SIDE
      else fold (pieceKey p) squares 0)"
    using k1 by (simp add: fits64_xor)
  obtain k3 where k3: "castlingKey (castling p)
      (if sideToMove p = BLACK then fold (pieceKey p) squares 0 XOR ZOBRIST_SIDE
       else fold (pieceKey p) squares 0) = Inr k3"
    and k: "k = (if enPassant p \<ge> 0 then k3 XOR ZOBRIST_EP (js_rem (enPassant p) 8) else k3)"
    using assms by (auto simp: getZobristKey_def Let_def split: sum.splits)
  have u3: "fits64 k3" using castlingKey_range [OF k3 k2] .
  show ?thesis
  proof (cases "enPassant p \<ge> 0")
    case True
    then have "0 \<le> js_rem (enPassant p) 8" "js_rem (enPassant p) 8 < 8"
      by (simp_all add: js_rem_def sgn_if)
    then have "nat (773 + js_rem (enPassant p) 8) < 781" by simp
    then have "fits64 (ZOBRIST_EP (js_rem (enPassant p) 8))"
      unfolding ZOBRIST_EP_def by (rule zobristValues_range)
    then show ?thesis using True k u3 by (simp add: fits64_xor)
  next
    case False
    then show ?thesis using k u3 by simp
  qed
qed

lemma removeSideRights_distinct: "distinct cs \<Longrightarrow> distinct (removeSideRights side cs)"
  by (cases side) (simp_all add: removeSideRights_def)

lemma makeMove_castling_distinct:
  assumes "distinct (castling p)"
  shows "distinct (castling (makeMove p m))"
proof (cases "truthy (castle m)")
  case True
  then show ?thesis
    using assms by (simp add: makeMove_def castleMove_def Let_def removeSideRights_distinct)
next
  case False
  then show ?thesis
    using assms
    by (simp add: makeMove_def Let_def split_beta updateCastling_def removeSideRights_distinct)
qed

lemma play_castling_distinct: "distinct (castling (play reset ms))"
proof -
  have "distinct (castling p) \<Longrightarrow> distinct (castling (foldl makeMove p ms))" for p
    by (induction ms arbitrary: p) (simp_all add: makeMove_castling_distinct)
  then show ?thesis
    by (simp add: play_def reset_def)
qed

lemma mulberry32_state: "fst (mulberry32 s) = s + 0x6d2b79f5"
  by (simp add: mulberry32_def Let_def)

lemma random64_state: "fst (random64 s) = s + 2 * 0x6d2b79f5"
  by (simp add: random64_def split_beta mulberry32_state)

text \<open>The seed advances by a constant, so each table entry is two calls away from its seed.\<close>

lemma randoms_nth:
  "k < n \<Longrightarrow> randoms n s ! k = snd (random64 (s + of_nat (2 * k) * 0x6d2b79f5))"
proof (induction n arbitrary: s k)
  case 0
  then show ?case by simp
next
  case (Suc n)
  show ?case
  proof (cases k)
    case 0
    then show ?thesis by (simp add: split_beta)
  next
    case (Suc j)
    then have "j < n" using Suc.prems by simp
    then have "randoms n (fst (random64 s)) ! j
        = snd (random64 (fst (random64 s) + of_nat (2 * j) * 0x6d2b79f5))"
      by (rule Suc.IH)
    then show ?thesis
      using Suc by (simp add: split_beta random64_state algebra_simps)
  qed
qed

lemma ZOBRIST_CASTLE_K: "ZOBRIST_CASTLE 0 = 10733284154370998467"
proof -
  have "ZOBRIST_CASTLE 0 = snd (random64 (0x5eed + of_nat (2 * 769) * 0x6d2b79f5))"
    unfolding ZOBRIST_CASTLE_def zobristValues_def by (simp add: randoms_nth)
  also have "\<dots> = 10733284154370998467"
    by code_simp
  finally show ?thesis .
qed

lemma empty_board_key:
  assumes "pawns p = (0, 0)" "knights p = (0, 0)" "bishops p = (0, 0)" "rooks p = (0, 0)"
    "queens p = (0, 0)" "kings p = (0, 0)"
  shows "fold (pieceKey p) sqs key = key"
proof -
  have "pieceKey p sq k = k" for sq k
    using assms by (simp add: pieceKey_def pieceSets_def)
  then show ?thesis
    by (induction sqs) simp_all
qed

lemma imported_K_eq:
  "imported_K = reset\<lparr>pawns := (0, 0), knights := (0, 0), bishops := (0, 0), rooks := (0, 0),
     queens := (0, 0), kings := (0, 0), castling := ''K''\<rparr>"
  by code_simp

lemma imported_KK_eq:
  "imported_KK = reset\<lparr>pawns := (0, 0), knights := (0, 0), bishops := (0, 0), rooks := (0, 0),
     queens := (0, 0), kings := (0, 0), castling := ''KK''\<rparr>"
  by code_simp

text \<open>
  With castling strings that store each right once, equal sets of rights are equal
  strings up to order.
\<close>

lemma rights_as_sets:
  assumes "set cs = set ds" "distinct cs" "distinct ds"
  shows "mset cs = mset ds"
  using assms by (simp add: set_eq_iff_mset_eq_distinct)

text \<open>A castling string with any other letter makes \<^verbatim>\<open>getZobristKey\<close> throw.\<close>

lemma castlingIndex_Some: "castlingIndex c \<noteq> None \<Longrightarrow> c \<in> set ''KQkq''"
  by (auto simp: castlingIndex_def split: if_splits)

lemma getZobristKey_Inl:
  assumes "\<not> set (castling p) \<subseteq> set ''KQkq''"
  shows "getZobristKey p = Inl TypeError"
proof -
  have "\<not> (\<forall>c \<in> set (castling p). castlingIndex c \<noteq> None)"
    using assms castlingIndex_Some by blast
  then show ?thesis
    unfolding getZobristKey_def Let_def castlingKey_fold by simp
qed

text \<open>
  C6 as the code has it. Two positions with the same twelve piece sets, the same side to
  move, castling strings that hold the same letters the same number of times, in any
  order (for strings that store each right once: the same set of rights), and the same
  en-passant square give the same result of \<^verbatim>\<open>getZobristKey\<close>, however they were
  reached; when the castling letters are among \<^verbatim>\<open>KQkq\<close> the result is a key, an
  unsigned 64-bit value (any other letter makes both calls throw the TypeError).
\<close>

theorem getZobristKey_same_position:
  assumes "pawns p = pawns q" and "knights p = knights q" and "bishops p = bishops q"
    and "rooks p = rooks q" and "queens p = queens q" and "kings p = kings q"
    and "sideToMove p = sideToMove q"
    and "mset (castling p) = mset (castling q)"
    and "enPassant p = enPassant q"
  shows "getZobristKey p = getZobristKey q
       \<and> (set (castling p) \<subseteq> set ''KQkq''
            \<longrightarrow> (\<exists>k. getZobristKey p = Inr k \<and> getZobristKey q = Inr k \<and> 0 \<le> k \<and> k < 2 ^ 64))"
proof -
  have "\<forall>sq \<in> set squares. probe p (bit_sq sq) pieceSets = probe q (bit_sq sq) pieceSets"
    using assms(1-6) by (simp add: pieceSets_def)
  then have e: "getZobristKey p = getZobristKey q"
    using assms(7-9) by (rule getZobristKey_cong)
  have "\<exists>k. getZobristKey p = Inr k \<and> getZobristKey q = Inr k \<and> 0 \<le> k \<and> k < 2 ^ 64"
    if h: "set (castling p) \<subseteq> set ''KQkq''"
  proof -
    obtain k where k: "getZobristKey p = Inr k"
      using getZobristKey_Inr [OF h] by blast
    then have "fits64 k" by (rule getZobristKey_range)
    then show ?thesis
      using k e by (auto simp: fits64_def)
  qed
  then show ?thesis
    using e by blast
qed

text \<open>
  The initial position by \<^verbatim>\<open>reset\<close>, and by import of a FEN that lists the rights in
  another order.
\<close>

theorem getZobristKey_same_position_witness:
  "castling reset = ''KQkq''
   \<and> castling (loadFromFEN reset ''rnbqkbnr/pppppppp/8/8/8/8/PPPPPPPP/RNBQKBNR w qkQK - 5 9'')
       = ''qkQK''
   \<and> (\<exists>k. getZobristKey reset = Inr k
        \<and> getZobristKey
             (loadFromFEN reset ''rnbqkbnr/pppppppp/8/8/8/8/PPPPPPPP/RNBQKBNR w qkQK - 5 9'')
           = Inr k
        \<and> 0 \<le> k \<and> k < 2 ^ 64)"
proof -
  let ?q = "loadFromFEN reset ''rnbqkbnr/pppppppp/8/8/8/8/PPPPPPPP/RNBQKBNR w qkQK - 5 9''"
  have q: "?q = reset\<lparr>castling := ''qkQK'', halfmove := 5, fullmove := 9\<rparr>"
    by code_simp
  have c: "castling reset = ''KQkq''"
    by (simp add: reset_def)
  have m: "mset (castling reset) = mset (castling ?q)"
    by (rule rights_as_sets) (auto simp: q c)
  have s: "set (castling reset) \<subseteq> set ''KQkq''"
    by (simp add: c)
  have "getZobristKey reset = getZobristKey ?q
      \<and> (set (castling reset) \<subseteq> set ''KQkq''
           \<longrightarrow> (\<exists>k. getZobristKey reset = Inr k \<and> getZobristKey ?q = Inr k
                  \<and> 0 \<le> k \<and> k < 2 ^ 64))"
    by (rule getZobristKey_same_position) (simp_all add: q m [unfolded q])
  then have "\<exists>k. getZobristKey reset = Inr k \<and> getZobristKey ?q = Inr k \<and> 0 \<le> k \<and> k < 2 ^ 64"
    using s by blast
  then show ?thesis
    using q c by simp
qed

text \<open>
  C6 as stated fails when a right is stored twice. \<^verbatim>\<open>loadFromFEN\<close> keeps the castling
  field as it is written, so the empty boards imported with the fields \<^verbatim>\<open>K\<close> and \<^verbatim>\<open>KK\<close>
  have the same piece sets, side, set of rights and en-passant square; the key of the
  first is the castling value of \<^verbatim>\<open>K\<close>, and in the second that value is combined twice
  and cancels.
\<close>

theorem repeated_right_changes_key:
  "pawns imported_K = pawns imported_KK \<and> knights imported_K = knights imported_KK
   \<and> bishops imported_K = bishops imported_KK \<and> rooks imported_K = rooks imported_KK
   \<and> queens imported_K = queens imported_KK \<and> kings imported_K = kings imported_KK
   \<and> sideToMove imported_K = sideToMove imported_KK
   \<and> set (castling imported_K) = set (castling imported_KK)
   \<and> enPassant imported_K = enPassant imported_KK
   \<and> getZobristKey imported_K = Inr 10733284154370998467
   \<and> getZobristKey imported_KK = Inr 0"
proof -
  have k1: "getZobristKey imported_K = Inr 10733284154370998467"
    by (simp add: imported_K_eq getZobristKey_def Let_def empty_board_key reset_def
        castlingIndex_def ZOBRIST_CASTLE_K)
  have k2: "getZobristKey imported_KK = Inr 0"
    by (simp add: imported_KK_eq getZobristKey_def Let_def empty_board_key reset_def
        castlingIndex_def)
  show ?thesis
    using k1 k2 by (simp add: imported_K_eq imported_KK_eq)
qed

section \<open>The two engines on the same text\<close>

lemma parseSAN_castle_check: "parseSAN ''O-O+'' = None"
  by code_simp

lemma parse_san_castle_check:
  "parse_san ''O-O+'' =
     Some \<lparr>ps_piece = 0, ps_targetIndex = - 1, ps_disambFile = - 1, ps_disambRank = - 1,
           ps_promotion = 0, ps_castle = 75\<rparr>"
  by code_simp

text \<open>
  C8 says that both engines resolve every SAN text to the same result. On a castle
  written with a check mark they do not: \<^verbatim>\<open>parseSAN\<close> compares the whole text with
  \<^verbatim>\<open>O-O\<close> and then finds no destination square, so the JavaScript engine returns
  \<^verbatim>\<open>null\<close>; \<^verbatim>\<open>parse_san\<close> compares only the first three characters, so the C engine
  resolves \<^verbatim>\<open>O-O+\<close> to the king-side castle (castle code 75, the letter K) of the side
  to move. This holds in every position, the initial one included. White space after the
  move is another such text: \<^verbatim>\<open>trim\<close> removes it in the JavaScript engine, which
  resolves \<^verbatim>\<open>"e4 "\<close> in the initial position to e2-e4, and the C engine, which skips
  leading blanks only, finds no square at the end.
\<close>

theorem engines_disagree_on_castle_with_check:
  "resolveSAN p ''O-O+'' = Inr None
   \<and> resolve_san b ''O-O+'' =
       Resolved \<lparr>mv_from = (if b_sideToMove b = WHITE then 4 else 60),
                 mv_to = (if b_sideToMove b = WHITE then 6 else 62),
                 mv_promotion = 0, mv_castle = 75, mv_enpassant = False\<rparr>
   \<and> resolveSAN reset ''e4 '' = Inr (Some (plainMove 12 28))
   \<and> resolve_san board_reset ''e4 '' = NoMove"
proof -
  have "resolveSAN reset ''e4 '' = Inr (Some (plainMove 12 28))"
    by code_simp
  moreover have "resolve_san board_reset ''e4 '' = NoMove"
    by code_simp
  ultimately show ?thesis
    by (simp add: resolveSAN_def resolve_san_def parseSAN_castle_check parse_san_castle_check)
qed

end
